theory Spec2Isabelle
  imports Main "HOL-Library.Sublist" "HOL-Library.AList"
begin

section \<open>Strings of the Go standard library\<close>

text \<open>
  A Go string is a sequence of bytes, and so is a HOL \<^typ>\<open>string\<close>. The decoder
  uses four functions of package \<^verbatim>\<open>strings\<close>: \<^verbatim>\<open>Split\<close> (always with a one-byte
  separator), \<^verbatim>\<open>TrimSpace\<close>, \<^verbatim>\<open>ToLower\<close> and a \<^verbatim>\<open>Replacer\<close>.

  \<^verbatim>\<open>TrimSpace\<close> and \<^verbatim>\<open>ToLower\<close> are modelled on ASCII: the six ASCII white space
  bytes are trimmed and the bytes \<^verbatim>\<open>A\<close> to \<^verbatim>\<open>Z\<close> are lowered. Go also trims the
  multi-byte Unicode spaces and lowers non-ASCII letters; bytes from 0x80 on are left
  alone here.
\<close>

definition isSpace :: "char \<Rightarrow> bool" where
  "isSpace c =
     (c = CHR 0x09 \<or> c = CHR 0x0A \<or> c = CHR 0x0B \<or> c = CHR 0x0C \<or> c = CHR 0x0D \<or> c = CHR 0x20)"

definition TrimSpace :: "string \<Rightarrow> string" where
  "TrimSpace s = rev (dropWhile isSpace (rev (dropWhile isSpace s)))"

definition toLowerByte :: "char \<Rightarrow> char" where
  "toLowerByte c =
     (if 65 \<le> (of_char c :: nat) \<and> (of_char c :: nat) \<le> 90
      then (case c of Char b0 b1 b2 b3 b4 b5 b6 b7 \<Rightarrow> Char b0 b1 b2 b3 b4 True b6 b7)
      else c)"

definition ToLower :: "string \<Rightarrow> string" where
  "ToLower s = map toLowerByte s"

text \<open>
  \<^verbatim>\<open>strings.Split(s, sep)\<close> for a one-byte separator: the pieces between the
  separators, in order; a string without the separator (the empty string too) gives one
  piece. The \<open>[]\<close> branch of the case is never taken.
\<close>

primrec Split :: "string \<Rightarrow> char \<Rightarrow> string list" where
  "Split [] sep = [[]]"
| "Split (c # cs) sep =
     (if c = sep then [] # Split cs sep
      else (case Split cs sep of [] \<Rightarrow> [[c]] | x # xs \<Rightarrow> (c # x) # xs))"

text \<open>
  \<^verbatim>\<open>var httpReplacer = strings.NewReplacer("https://", "", "http://", "")\<close>, applied
  with \<^verbatim>\<open>Replace\<close>: one pass from left to right; at each position the old strings
  are tried in argument order, a match is replaced (here: dropped) and the scan goes on
  behind it; otherwise the byte is kept.
\<close>

fun httpReplacer :: "string \<Rightarrow> string" where
  "httpReplacer [] = []"
| "httpReplacer (c # cs) =
     (if prefix ''https://'' (c # cs) then httpReplacer (drop 7 cs)
      else if prefix ''http://'' (c # cs) then httpReplacer (drop 6 cs)
      else c # httpReplacer cs)"

section \<open>Metadata records\<close>

text \<open>
  Modelled from the spec: the struct \<^verbatim>\<open>Metadata\<close> and the \<^verbatim>\<open>Key...\<close> constants are
  declared outside the given sources. The record has the fields the decoder reads and
  writes; the keys are the lower-cased names of the recognised fields (Name, Version,
  Summary, Home-page, Author, Author-email, License, Location, Requires).
  \<open>Modules\<close> is a Go slice: \<open>None\<close> is the nil slice.
\<close>

record Metadata =
  Name :: string
  Version :: string
  Description :: string
  HomePage :: string
  Author :: string
  AuthorEmail :: string
  License :: string
  Location :: string
  Modules :: "string list option"
  ProjectURL :: string
  PackageURL :: string
  PackageJsonURL :: string
  DistInfoPath :: string
  LocalPath :: string
  LicensePath :: string
  MetadataPath :: string
  WheelPath :: string

definition KeyName :: string where "KeyName = ''name''"
definition KeyVersion :: string where "KeyVersion = ''version''"
definition KeySummary :: string where "KeySummary = ''summary''"
definition KeyHomePage :: string where "KeyHomePage = ''home-page''"
definition KeyAuthor :: string where "KeyAuthor = ''author''"
definition KeyAuthorEmail :: string where "KeyAuthorEmail = ''author-email''"
definition KeyLicense :: string where "KeyLicense = ''license''"
definition KeyLocation :: string where "KeyLocation = ''location''"
definition KeyRequires :: string where "KeyRequires = ''requires''"

text \<open>\<^verbatim>\<open>new(Metadata)\<close>: every field has its zero value.\<close>

definition new_Metadata :: Metadata where
  "new_Metadata =
     \<lparr>Name = [], Version = [], Description = [], HomePage = [], Author = [],
      AuthorEmail = [], License = [], Location = [], Modules = None, ProjectURL = [],
      PackageURL = [], PackageJsonURL = [], DistInfoPath = [], LocalPath = [],
      LicensePath = [], MetadataPath = [], WheelPath = []\<rparr>"

text \<open>Reading a \<^verbatim>\<open>map[string]string\<close>: a missing key reads as the empty string.\<close>

definition index_datamap :: "(string \<rightharpoonup> string) \<Rightarrow> string \<Rightarrow> string" where
  "index_datamap datamap k = (case datamap k of None \<Rightarrow> [] | Some v \<Rightarrow> v)"

definition SetMetadataValues :: "Metadata \<Rightarrow> (string \<rightharpoonup> string) \<Rightarrow> Metadata" where
  "SetMetadataValues matadata datamap =
     matadata
       \<lparr>Name := index_datamap datamap KeyName,
        Version := index_datamap datamap KeyVersion,
        Description := index_datamap datamap KeySummary,
        HomePage := httpReplacer (index_datamap datamap KeyHomePage),
        Author := index_datamap datamap KeyAuthor,
        AuthorEmail := index_datamap datamap KeyAuthorEmail,
        License := index_datamap datamap KeyLicense,
        Location := index_datamap datamap KeyLocation,
        Modules :=
          (if length (index_datamap datamap KeyRequires) \<noteq> 0
           then Some (map TrimSpace (Split (index_datamap datamap KeyRequires) CHR '',''))
           else Modules matadata)\<rparr>"

text \<open>
  The body of the loop of \<^verbatim>\<open>ParseMetadata\<close> for one line. Past the guard the list
  \<open>res\<close> has two elements at least, so \<open>res ! 0\<close> and \<open>res ! 1\<close> are in range.
\<close>

definition parse_line :: "string \<Rightarrow> (string \<rightharpoonup> string) \<Rightarrow> (string \<rightharpoonup> string)" where
  "parse_line resline pkgDataMap =
     (let res = Split resline CHR '':'' in
      if length res \<le> 1 then pkgDataMap
      else
        let value = TrimSpace (res ! 1);
            value = (if length res > 2
                     then foldl (\<lambda>v r. v @ '':'' @ r) value (drop 2 res)
                     else value)
        in pkgDataMap(ToLower (res ! 0) \<mapsto> value))"

definition parse_lines :: "string \<Rightarrow> (string \<rightharpoonup> string)" where
  "parse_lines packagedetails =
     foldl (\<lambda>pkgDataMap resline. parse_line resline pkgDataMap) Map.empty
       (Split packagedetails CHR 0x0A)"

definition ParseMetadata :: "Metadata \<Rightarrow> string \<Rightarrow> Metadata" where
  "ParseMetadata metadata packagedetails =
     SetMetadataValues metadata (parse_lines packagedetails)"

text \<open>
  A Go \<^verbatim>\<open>error\<close> value; \<open>None\<close> in an \<open>error option\<close> is \<^verbatim>\<open>nil\<close>.
\<close>

datatype error = Error string

record MetadataDecoder =
  getPkgDetailsFunc :: "string \<Rightarrow> string \<times> error option"

text \<open>
  The functions of package \<^verbatim>\<open>worker\<close> that \<^verbatim>\<open>BuildMetadata\<close> and \<^verbatim>\<open>BuildModule\<close>
  call and that are declared outside the given sources. They are parameters of the
  model: every theorem below holds for any choice of them.
\<close>

record helpers =
  SetMetadataToNoAssertion :: "Metadata \<Rightarrow> string \<Rightarrow> Metadata"
  BuildProjectUrl :: "string \<Rightarrow> string \<Rightarrow> string"
  BuildPackageUrl :: "string \<Rightarrow> string \<Rightarrow> string"
  BuildPackageJsonUrl :: "string \<Rightarrow> string \<Rightarrow> string"
  BuildDistInfoPath :: "string \<Rightarrow> string \<Rightarrow> string \<Rightarrow> string"
  BuildLocalPath :: "string \<Rightarrow> string \<Rightarrow> string"
  BuildLicenseUrl :: "string \<Rightarrow> string"
  BuildMetadataPath :: "string \<Rightarrow> string"
  BuildWheelPath :: "string \<Rightarrow> string"
  IsAuthorAnOrganization :: "string \<Rightarrow> string \<Rightarrow> bool"
  GetPackageChecksum :: "string \<Rightarrow> string \<Rightarrow> string \<Rightarrow> string"

text \<open>
  \<^verbatim>\<open>BuildMetadata\<close> writes the record its caller allocated; the model returns the
  record. The call of \<^verbatim>\<open>wg.Done()\<close> only signals the caller's barrier and is left
  out. There is no \<^verbatim>\<open>return\<close> and no \<^verbatim>\<open>else\<close> after the error branch:
  \<^verbatim>\<open>ParseMetadata\<close> runs on the fetched text in both cases.
\<close>

definition BuildMetadata :: "helpers \<Rightarrow> MetadataDecoder \<Rightarrow> string \<Rightarrow> Metadata \<Rightarrow> Metadata" where
  "BuildMetadata hp d packagename metadata =
     (let (metadatastr, err) = getPkgDetailsFunc d packagename;
          metadata = (case err of
                        Some e \<Rightarrow> SetMetadataToNoAssertion hp metadata packagename
                      | None \<Rightarrow> metadata);
          metadata = ParseMetadata metadata metadatastr;
          metadata = metadata\<lparr>ProjectURL := BuildProjectUrl hp (Name metadata) (Version metadata)\<rparr>;
          metadata = metadata\<lparr>PackageURL := BuildPackageUrl hp (Name metadata) (Version metadata)\<rparr>;
          metadata = (if length (HomePage metadata) > 0
                      then metadata\<lparr>PackageURL := HomePage metadata\<rparr>
                      else metadata);
          metadata = metadata\<lparr>PackageJsonURL := BuildPackageJsonUrl hp (Name metadata) (Version metadata)\<rparr>;
          metadata = metadata\<lparr>DistInfoPath :=
                       BuildDistInfoPath hp (Location metadata) (Name metadata) (Version metadata)\<rparr>;
          metadata = metadata\<lparr>LocalPath := BuildLocalPath hp (Location metadata) (Name metadata)\<rparr>;
          metadata = metadata\<lparr>LicensePath := BuildLicenseUrl hp (DistInfoPath metadata)\<rparr>;
          metadata = metadata\<lparr>MetadataPath := BuildMetadataPath hp (DistInfoPath metadata)\<rparr>;
          metadata = metadata\<lparr>WheelPath := BuildWheelPath hp (DistInfoPath metadata)\<rparr>
      in metadata)"

text \<open>
  Modelled from the spec: \<^verbatim>\<open>SetMetadataToNoAssertion\<close> is declared outside the
  given sources. It sets Name to the package name and every other descriptive field to
  the sentinel. Together with placeholder templates for the identifier builders it
  gives one instance of the helpers, used where a closed example needs one.
\<close>

definition NoAssertion :: string where
  "NoAssertion = ''NOASSERTION''"

definition spec_SetMetadataToNoAssertion :: "Metadata \<Rightarrow> string \<Rightarrow> Metadata" where
  "spec_SetMetadataToNoAssertion metadata packagename =
     metadata
       \<lparr>Name := packagename, Version := NoAssertion, Description := NoAssertion,
        HomePage := NoAssertion, Author := NoAssertion, AuthorEmail := NoAssertion,
        License := NoAssertion, Location := NoAssertion\<rparr>"

definition spec_helpers :: helpers where
  "spec_helpers =
     \<lparr>SetMetadataToNoAssertion = spec_SetMetadataToNoAssertion,
      BuildProjectUrl = (\<lambda>name version. ''registry/project/'' @ name @ ''/'' @ version),
      BuildPackageUrl = (\<lambda>name version. ''registry/package/'' @ name @ ''/'' @ version),
      BuildPackageJsonUrl = (\<lambda>name version. ''registry/json/'' @ name @ ''/'' @ version),
      BuildDistInfoPath = (\<lambda>location name version. location @ ''/'' @ name @ ''-'' @ version),
      BuildLocalPath = (\<lambda>location name. location @ ''/'' @ name),
      BuildLicenseUrl = (\<lambda>distinfo. distinfo @ ''/LICENSE''),
      BuildMetadataPath = (\<lambda>distinfo. distinfo @ ''/METADATA''),
      BuildWheelPath = (\<lambda>distinfo. distinfo @ ''/WHEEL''),
      IsAuthorAnOrganization = (\<lambda>author email. False),
      GetPackageChecksum = (\<lambda>name url wheel. [])\<rparr>"

text \<open>A decoder whose fetch function answers every package with the same pair.\<close>

definition fetching :: "string \<Rightarrow> error option \<Rightarrow> MetadataDecoder" where
  "fetching text err = \<lparr>getPkgDetailsFunc = (\<lambda>packageName. (text, err))\<rparr>"

text \<open>
  The reading of the spec's sentence on PackageURL that strips a leading scheme only,
  to be compared with \<^const>\<open>httpReplacer\<close>.
\<close>

definition spec_strip_leading_scheme :: "string \<Rightarrow> string" where
  "spec_strip_leading_scheme s =
     (if prefix ''https://'' s then drop 8 s
      else if prefix ''http://'' s then drop 7 s
      else s)"

text \<open>
  The value of a line as the spec's sentence words it: element 1 as it is, with the
  elements from 2 on joined back behind colons; to be compared with what
  \<^const>\<open>parse_line\<close> stores.
\<close>

definition spec_rejoined :: "string list \<Rightarrow> string" where
  "spec_rejoined res = foldl (\<lambda>v r. v @ '':'' @ r) (res ! 1) (drop 2 res)"

section \<open>Modules and the heap\<close>

text \<open>
  Modelled from the spec: the struct \<^verbatim>\<open>models.Module\<close>, its supplier contact and the
  contact kinds are declared outside the given sources. The record has the fields the
  decoder writes. \<open>Supplier\<close> is optional (\<open>None\<close> is the zero struct) and the
  checksum is a string, as the spec has them.

  \<open>OtherLicense\<close> is a Go slice \<^verbatim>\<open>[]*models.License\<close> (the type of the literal in
  \<^verbatim>\<open>BuildModule\<close>): the field holds a slice header, the address of a backing array
  with the length, \<open>None\<close> for the nil slice. Copying the field copies the header, so
  the copy and the original share the backing array.

  \<open>Modules\<close> is a Go map \<^verbatim>\<open>map[string]*Module\<close>, a reference: the field holds the
  address of a map object, \<open>None\<close> for the nil map. Copying a \<^verbatim>\<open>Module\<close> value
  copies the address, so the copy and the original share the map object.
\<close>

datatype TypeContact = Person | Organization

record SupplierContact =
  Type :: TypeContact
  Name :: string
  Email :: string

record Module =
  Version :: string
  Name :: string
  Path :: string
  LocalPath :: string
  Supplier :: "SupplierContact option"
  PackageURL :: string
  CheckSum :: string
  PackageHomePage :: string
  LicenseConcluded :: string
  LicenseDeclared :: string
  CommentsLicense :: string
  OtherLicense :: "(nat \<times> nat) option"
  Copyright :: string
  PackageComment :: string
  Root :: bool
  Modules :: "nat option"

text \<open>The zero value of \<^verbatim>\<open>models.Module\<close>, which a map read gives for a missing key.\<close>

definition zero_Module :: Module where
  "zero_Module =
     \<lparr>Version = [], Name = [], Path = [], LocalPath = [], Supplier = None,
      PackageURL = [], CheckSum = [], PackageHomePage = [], LicenseConcluded = [],
      LicenseDeclared = [], CommentsLicense = [], OtherLicense = None, Copyright = [],
      PackageComment = [], Root = False, Modules = None\<rparr>"

text \<open>
  The heap: the map objects (\<open>mapobjs h r k\<close> is the pointer stored under key \<open>k\<close> in
  the map at address \<open>r\<close>), the module objects (those allocated by
  \<^verbatim>\<open>&models.Module{...}\<close>, and any other a pointer can lead to, such as the elements
  of a module list), the backing arrays of the licence slices (their elements are
  pointers to licences), and the next free address of each kind.
\<close>

record heap =
  mapobjs :: "nat \<Rightarrow> (string \<rightharpoonup> nat)"
  modobjs :: "nat \<Rightarrow> Module"
  licarrays :: "nat \<Rightarrow> nat list"
  nextmap :: nat
  nextmod :: nat
  nextarr :: nat

definition empty_heap :: heap where
  "empty_heap =
     \<lparr>mapobjs = (\<lambda>r. Map.empty), modobjs = (\<lambda>p. zero_Module), licarrays = (\<lambda>a. []),
      nextmap = 0, nextmod = 0, nextarr = 0\<rparr>"

text \<open>A dependency map as a reader sees it: the modules its pointers lead to.\<close>

definition deps_of :: "heap \<Rightarrow> nat \<Rightarrow> (string \<rightharpoonup> Module)" where
  "deps_of h r = (\<lambda>k. map_option (modobjs h) (mapobjs h r k))"

datatype panic = IndexOutOfRange | NilMapAssignment | NilDereference

text \<open>
  \<^verbatim>\<open>BuildModule\<close>; the commented-out licence block contributes nothing.
  \<^verbatim>\<open>map[string]*models.Module{}\<close> allocates a fresh empty map object, and
  \<^verbatim>\<open>[]*models.License{}\<close> a fresh slice of length 0.
\<close>

definition BuildModule :: "helpers \<Rightarrow> bool \<Rightarrow> Metadata \<Rightarrow> heap \<Rightarrow> Module \<times> heap" where
  "BuildModule hp root metadata h =
     (let contactType =
            (if IsAuthorAnOrganization hp (Author metadata) (AuthorEmail metadata)
             then Organization else Person);
          r = nextmap h;
          a = nextarr h
      in (\<lparr>Version = Metadata.Version metadata,
           Name = Metadata.Name metadata,
           Path = ProjectURL metadata,
           LocalPath = Metadata.LocalPath metadata,
           Supplier =
             (if length (AuthorEmail metadata) > 0
              then Some \<lparr>Type = contactType, Name = Author metadata, Email = AuthorEmail metadata\<rparr>
              else None),
           PackageURL = Metadata.PackageURL metadata,
           CheckSum =
             GetPackageChecksum hp (Metadata.Name metadata) (PackageJsonURL metadata)
               (WheelPath metadata),
           PackageHomePage = HomePage metadata,
           LicenseConcluded = [], LicenseDeclared = [], CommentsLicense = [],
           OtherLicense = Some (a, 0), Copyright = [],
           PackageComment = Description metadata,
           Root = root,
           Modules = Some r\<rparr>,
          h\<lparr>mapobjs := (mapobjs h)(r := Map.empty), nextmap := Suc r,
            licarrays := (licarrays h)(a := []), nextarr := Suc a\<rparr>))"

section \<open>The dependency graph\<close>

text \<open>
  The first loop of \<^verbatim>\<open>BuildDependencyGraph\<close>: the lookup from lower-cased names to
  module values, a later module of the list replacing an earlier one of the same key.
\<close>

definition moduleMap_of :: "Module list \<Rightarrow> (string \<rightharpoonup> Module)" where
  "moduleMap_of modules =
     foldl (\<lambda>moduleMap module. moduleMap(ToLower (Name module) \<mapsto> module)) Map.empty modules"

text \<open>Reading the lookup: there is no \<^verbatim>\<open>ok\<close> test, a missing key reads as the zero module.\<close>

definition index_moduleMap :: "(string \<rightharpoonup> Module) \<Rightarrow> string \<Rightarrow> Module" where
  "index_moduleMap moduleMap k = (case moduleMap k of None \<Rightarrow> zero_Module | Some m \<Rightarrow> m)"

text \<open>
  The composite literal \<^verbatim>\<open>&models.Module{Version: depModule.Version, ...}\<close>: fifteen
  fields are listed, \<open>Modules\<close> is not and keeps its zero value, the nil map.
\<close>

definition literal_of :: "Module \<Rightarrow> Module" where
  "literal_of depModule =
     \<lparr>Version = Version depModule,
      Name = Name depModule,
      Path = Path depModule,
      LocalPath = LocalPath depModule,
      Supplier = Supplier depModule,
      PackageURL = PackageURL depModule,
      CheckSum = CheckSum depModule,
      PackageHomePage = PackageHomePage depModule,
      LicenseConcluded = LicenseConcluded depModule,
      LicenseDeclared = LicenseDeclared depModule,
      CommentsLicense = CommentsLicense depModule,
      OtherLicense = OtherLicense depModule,
      Copyright = Copyright depModule,
      PackageComment = PackageComment depModule,
      Root = Root depModule,
      Modules = None\<rparr>"

text \<open>
  The body of the inner loop: the literal is allocated at a fresh address, then the
  pointer is stored in \<^verbatim>\<open>mod.Modules\<close> under the dependency's name. A store into the
  nil map panics.
\<close>

definition link_dep :: "(string \<rightharpoonup> Module) \<Rightarrow> Module \<Rightarrow> string \<Rightarrow> heap \<Rightarrow> panic + heap" where
  "link_dep moduleMap mod' modname h =
     (let depModule = index_moduleMap moduleMap (ToLower modname);
          p = nextmod h;
          h = h\<lparr>modobjs := (modobjs h)(p := literal_of depModule), nextmod := Suc p\<rparr>
      in case Modules mod' of
           None \<Rightarrow> Inl NilMapAssignment
         | Some r \<Rightarrow>
             Inr (h\<lparr>mapobjs := (mapobjs h)(r := (mapobjs h r)(Name depModule \<mapsto> p))\<rparr>))"

primrec link_deps :: "(string \<rightharpoonup> Module) \<Rightarrow> Module \<Rightarrow> string list \<Rightarrow> heap \<Rightarrow> panic + heap" where
  "link_deps moduleMap mod' [] h = Inr h"
| "link_deps moduleMap mod' (modname # rest) h =
     (case link_dep moduleMap mod' modname h of
        Inl e \<Rightarrow> Inl e
      | Inr h' \<Rightarrow> link_deps moduleMap mod' rest h')"

text \<open>Ranging over a slice: the nil slice has no elements.\<close>

definition elements :: "'a list option \<Rightarrow> 'a list" where
  "elements s = (case s of None \<Rightarrow> [] | Some xs \<Rightarrow> xs)"

text \<open>
  The outer loop, over the entries of the metadata table in the order the iteration
  visits them. Go fixes no order for a map: the table is a list of its entries, and any
  order of the list is a possible run.
\<close>

primrec link_all :: "(string \<rightharpoonup> Module) \<Rightarrow> (string \<times> Metadata) list \<Rightarrow> heap \<Rightarrow> panic + heap" where
  "link_all moduleMap [] h = Inr h"
| "link_all moduleMap (entry # rest) h =
     (case link_deps moduleMap
             (index_moduleMap moduleMap (ToLower (Metadata.Name (snd entry))))
             (elements (Metadata.Modules (snd entry))) h of
        Inl e \<Rightarrow> Inl e
      | Inr h' \<Rightarrow> link_all moduleMap rest h')"

text \<open>
  \<^verbatim>\<open>BuildDependencyGraph\<close> returns \<^verbatim>\<open>nil\<close> whenever it returns. The struct values of
  the module list are not written; what changes are the map objects they point to.
\<close>

definition BuildDependencyGraph ::
  "Module list \<Rightarrow> (string \<times> Metadata) list \<Rightarrow> heap \<Rightarrow> panic + (error option \<times> heap)" where
  "BuildDependencyGraph modules pkgsMetadata h =
     (case link_all (moduleMap_of modules) pkgsMetadata h of
        Inl e \<Rightarrow> Inl e
      | Inr h' \<Rightarrow> Inr (None, h'))"

section \<open>Writes after linking\<close>

text \<open>
  What a caller can do with a pointer \<open>p\<close> to a module. An assignment to fields of
  \<^verbatim>\<open>*p\<close> replaces the module at \<open>p\<close> (\<open>f\<close> is the change of the fields). A store
  \<^verbatim>\<open>s[i] = v\<close> into a licence slice writes the backing array of \<open>s\<close>, and panics
  when \<open>i\<close> is not below the length (always, for the nil slice).
\<close>

definition assign_field :: "nat \<Rightarrow> (Module \<Rightarrow> Module) \<Rightarrow> heap \<Rightarrow> heap" where
  "assign_field p f h = h\<lparr>modobjs := (modobjs h)(p := f (modobjs h p))\<rparr>"

definition assign_element :: "(nat \<times> nat) option \<Rightarrow> nat \<Rightarrow> nat \<Rightarrow> heap \<Rightarrow> panic + heap" where
  "assign_element s i v h =
     (case s of
        None \<Rightarrow> Inl IndexOutOfRange
      | Some header \<Rightarrow>
          if i < snd header
          then Inr (h\<lparr>licarrays := (licarrays h)(fst header := (licarrays h (fst header))[i := v])\<rparr>)
          else Inl IndexOutOfRange)"

text \<open>The licence pointers that a module's slice holds.\<close>

definition licences_of :: "heap \<Rightarrow> Module \<Rightarrow> nat list" where
  "licences_of h m =
     (case OtherLicense m of
        None \<Rightarrow> []
      | Some header \<Rightarrow> take (snd header) (licarrays h (fst header)))"

text \<open>
  The statement \<^verbatim>\<open>deps[k].OtherLicense[i] = v\<close> run after a call of
  \<^verbatim>\<open>BuildDependencyGraph\<close>, for the dependency map \<^verbatim>\<open>deps\<close> at address \<open>r\<close>: a
  missing key reads as the nil pointer, whose field cannot be reached.
\<close>

definition element_store_after ::
  "panic + (error option \<times> heap) \<Rightarrow> nat \<Rightarrow> string \<Rightarrow> nat \<Rightarrow> nat \<Rightarrow> panic + heap" where
  "element_store_after res r k i v =
     (case res of
        Inl e \<Rightarrow> Inl e
      | Inr res' \<Rightarrow>
          (case mapobjs (snd res') r k of
             None \<Rightarrow> Inl NilDereference
           | Some p \<Rightarrow> assign_element (OtherLicense (modobjs (snd res') p)) i v (snd res')))"

definition licences_after :: "panic + heap \<Rightarrow> Module \<Rightarrow> panic + nat list" where
  "licences_after res m = (case res of Inl e \<Rightarrow> Inl e | Inr h \<Rightarrow> Inr (licences_of h m))"

section \<open>Merging metadata tables\<close>

text \<open>
  A \<^verbatim>\<open>map[string]*Metadata\<close> is a reference too. The store gives each map object
  its entries (key and pointer) as an association list, in the order a \<^verbatim>\<open>range\<close>
  visits them; \<open>None\<close> is the nil map, which ranges over nothing and panics on a store.
\<close>

type_synonym tables = "nat \<Rightarrow> (string \<times> nat) list"

primrec merge_loop :: "(string \<times> nat) list \<Rightarrow> nat option \<Rightarrow> tables \<Rightarrow> panic + tables" where
  "merge_loop [] nonroot s = Inr s"
| "merge_loop (entry # rest) nonroot s =
     (case nonroot of
        None \<Rightarrow> Inl NilMapAssignment
      | Some n \<Rightarrow> merge_loop rest nonroot (s(n := AList.update (fst entry) (snd entry) (s n))))"

definition MergeMetadataMap ::
  "nat option \<Rightarrow> nat option \<Rightarrow> tables \<Rightarrow> panic + (nat option \<times> tables)" where
  "MergeMetadataMap root nonroot s =
     (case merge_loop (case root of None \<Rightarrow> [] | Some r \<Rightarrow> s r) nonroot s of
        Inl e \<Rightarrow> Inl e
      | Inr s' \<Rightarrow> Inr (nonroot, s'))"

section \<open>The root module\<close>

text \<open>
  \<^verbatim>\<open>RemoveDuplicateRootModule\<close>: \<^verbatim>\<open>modules[0]\<close> is read before the loop and panics on
  an empty slice. The loop carries the index \<open>i\<close>.
\<close>

primrec dedup_loop :: "Module \<Rightarrow> nat \<Rightarrow> Module list \<Rightarrow> Module list \<Rightarrow> Module list" where
  "dedup_loop rootMod i [] updatedModules = updatedModules"
| "dedup_loop rootMod i (mod' # rest) updatedModules =
     (if i > 0 \<and> Name mod' = Name rootMod
      then dedup_loop rootMod (Suc i) rest updatedModules
      else dedup_loop rootMod (Suc i) rest (updatedModules @ [mod']))"

definition RemoveDuplicateRootModule :: "Module list \<Rightarrow> panic + Module list" where
  "RemoveDuplicateRootModule modules =
     (case modules of
        [] \<Rightarrow> Inl IndexOutOfRange
      | rootMod # _ \<Rightarrow> Inr (dedup_loop rootMod 0 modules []))"

text \<open>
  \<^verbatim>\<open>fetchRootModule\<close> of package \<^verbatim>\<open>pipenv\<close>. What it gets from the command layer and
  from package \<^verbatim>\<open>worker\<close> is a parameter: whether the path holds a valid root module,
  whether the push to the environment succeeded, the output of the root-module command,
  the requirement test, the package loader, and the modules that
  \<^verbatim>\<open>ConvertMetadataToModules\<close> appends for a package list (one for each package). The
  function returns \<^verbatim>\<open>modules[0]\<close> with a nil error, whatever happened before.
\<close>

record root_commands =
  IsValidRootModule :: "string \<Rightarrow> bool"
  PushRootModuleToVenv :: bool
  RootModuleOutput :: "string \<times> error option"
  IsRequirementMeet :: "bool \<Rightarrow> string \<Rightarrow> bool"
  LoadModules :: "string \<Rightarrow> string list"
  ConvertMetadataToModules :: "bool \<Rightarrow> string list \<Rightarrow> Module list"

definition fetchRootModule :: "root_commands \<Rightarrow> string \<Rightarrow> panic + (Module \<times> error option)" where
  "fetchRootModule m path =
     (let rootModuleState = (if IsValidRootModule m path then PushRootModuleToVenv m else False);
          modules =
            (if rootModuleState
             then (let (result, err) = RootModuleOutput m;
                       pkgs = (if err = None \<and> length result > 0 \<and> IsRequirementMeet m True result
                               then LoadModules m result else [])
                   in ConvertMetadataToModules m True pkgs)
             else [])
      in case modules of
           [] \<Rightarrow> Inl IndexOutOfRange
         | rootModule # _ \<Rightarrow> Inr (rootModule, None))"

section \<open>Linking, edge by edge\<close>

text \<open>
  The two loops of \<^verbatim>\<open>BuildDependencyGraph\<close> run the same store once for every pair
  of an owner and a dependency name, in the order of the table and of each record's
  list. An edge is the address of the owner's map (\<open>None\<close> for the nil map) with the
  module the dependency name reads as; \<open>edges_of\<close> lists the edges in that order, and
  \<open>store_edges\<close> runs the stores.
\<close>

type_synonym edge = "nat option \<times> Module"

definition store_edge :: "edge \<Rightarrow> heap \<Rightarrow> panic + heap" where
  "store_edge e h =
     (case fst e of
        None \<Rightarrow> Inl NilMapAssignment
      | Some r \<Rightarrow>
          Inr (h\<lparr>mapobjs := (mapobjs h)(r := (mapobjs h r)(Name (snd e) \<mapsto> nextmod h)),
                 modobjs := (modobjs h)(nextmod h := literal_of (snd e)),
                 nextmod := Suc (nextmod h)\<rparr>))"

primrec store_edges :: "edge list \<Rightarrow> heap \<Rightarrow> panic + heap" where
  "store_edges [] h = Inr h"
| "store_edges (e # es) h =
     (case store_edge e h of Inl x \<Rightarrow> Inl x | Inr h' \<Rightarrow> store_edges es h')"

definition edges_of :: "(string \<rightharpoonup> Module) \<Rightarrow> (string \<times> Metadata) list \<Rightarrow> edge list" where
  "edges_of moduleMap pkgsMetadata =
     concat (map (\<lambda>entry.
        map (\<lambda>modname.
               (Modules (index_moduleMap moduleMap (ToLower (Metadata.Name (snd entry)))),
                index_moduleMap moduleMap (ToLower modname)))
            (elements (Metadata.Modules (snd entry))))
       pkgsMetadata)"

text \<open>
  A heap that allocation can have produced: the pointers stored in the map objects lie
  below the next free address.
\<close>

definition wf_heap :: "heap \<Rightarrow> bool" where
  "wf_heap h = (\<forall>r k p. mapobjs h r k = Some p \<longrightarrow> p < nextmod h)"

text \<open>The same stores on the dependency maps as a reader sees them.\<close>

primrec view_edges :: "edge list \<Rightarrow> (nat \<Rightarrow> string \<rightharpoonup> Module) \<Rightarrow> (nat \<Rightarrow> string \<rightharpoonup> Module)" where
  "view_edges [] v = v"
| "view_edges (e # es) v =
     view_edges es
       (case fst e of None \<Rightarrow> v | Some r \<Rightarrow> v(r := (v r)(Name (snd e) \<mapsto> literal_of (snd e))))"

text \<open>
  Two stores into the same map under the same key store the same value.
\<close>

definition consistent :: "edge list \<Rightarrow> bool" where
  "consistent es =
     (\<forall>e1\<in>set es. \<forall>e2\<in>set es.
        fst e1 = fst e2 \<and> Name (snd e1) = Name (snd e2) \<longrightarrow>
        literal_of (snd e1) = literal_of (snd e2))"

text \<open>Every dependency name of the table is a key of the module lookup.\<close>

definition resolves :: "Module list \<Rightarrow> (string \<times> Metadata) list \<Rightarrow> bool" where
  "resolves modules pkgsMetadata =
     (\<forall>entry\<in>set pkgsMetadata. \<forall>modname\<in>set (elements (Metadata.Modules (snd entry))).
        moduleMap_of modules (ToLower modname) \<noteq> None)"

text \<open>
  What a caller reads once the call is over: the dependency maps with their pointers
  followed, or the panic.
\<close>

definition maps_after :: "panic + (error option \<times> heap) \<Rightarrow> panic + (nat \<Rightarrow> string \<rightharpoonup> Module)" where
  "maps_after res = (case res of Inl e \<Rightarrow> Inl e | Inr res' \<Rightarrow> Inr (deps_of (snd res')))"

section \<open>Inputs of the closed examples\<close>

text \<open>
  What the dependency map at an address holds under a key once the call is over, or the
  panic.
\<close>

definition deps_after :: "panic + (error option \<times> heap) \<Rightarrow> nat \<Rightarrow> string \<Rightarrow> panic + Module option" where
  "deps_after res r k = (case res of Inl e \<Rightarrow> Inl e | Inr res' \<Rightarrow> Inr (deps_of (snd res') r k))"

text \<open>A metadata record with a name and a list of dependency names.\<close>

definition requiring :: "string \<Rightarrow> string list \<Rightarrow> Metadata" where
  "requiring name deps = new_Metadata\<lparr>Metadata.Name := name, Metadata.Modules := Some deps\<rparr>"

text \<open>
  Modules with a map object each (\<open>modE\<close>: a module whose name is empty, as a record
  whose fetch failed gives), and a heap in which three map objects are allocated.
\<close>

definition modA :: Module where
  "modA = zero_Module\<lparr>Name := ''A'', Version := ''1.0'', Modules := Some 0\<rparr>"
definition modB :: Module where
  "modB = zero_Module\<lparr>Name := ''B'', Version := ''2.0'', Modules := Some 1\<rparr>"
definition modC :: Module where
  "modC = zero_Module\<lparr>Name := ''C'', Version := ''3.0'', Modules := Some 2\<rparr>"
definition modE :: Module where
  "modE = zero_Module\<lparr>Version := ''0.1'', Modules := Some 1\<rparr>"

definition three_maps :: heap where
  "three_maps = empty_heap\<lparr>nextmap := 3\<rparr>"

text \<open>
  A module with one licence (the pointer 7) in its slice, whose backing array is at
  address 0, and a heap that holds the array and two map objects.
\<close>

definition modL :: Module where
  "modL = zero_Module\<lparr>Name := ''L'', Version := ''4.0'', Modules := Some 1,
            OtherLicense := Some (0, 1)\<rparr>"

definition licensed_heap :: heap where
  "licensed_heap = empty_heap\<lparr>licarrays := (\<lambda>a. [])(0 := [7]), nextmap := 2, nextarr := 1\<rparr>"

text \<open>
  The same heap with the elements of the module list \<open>[modA, modL]\<close> as the module
  objects at the addresses 0 and 1.
\<close>

definition listed_heap :: heap where
  "listed_heap =
     empty_heap\<lparr>modobjs := (\<lambda>p. zero_Module)(0 := modA, 1 := modL),
                licarrays := (\<lambda>a. [])(0 := [7]), nextmap := 2, nextmod := 2, nextarr := 1\<rparr>"

text \<open>A second call of \<^verbatim>\<open>BuildDependencyGraph\<close> on the heap a first call has left.\<close>

definition relink ::
  "panic + (error option \<times> heap) \<Rightarrow> Module list \<Rightarrow> (string \<times> Metadata) list \<Rightarrow>
   panic + (error option \<times> heap)" where
  "relink res modules pkgsMetadata =
     (case res of
        Inl e \<Rightarrow> Inl e
      | Inr res' \<Rightarrow> BuildDependencyGraph modules pkgsMetadata (snd res'))"
text \<open>
  A store with a root table at address 0 and a non-root table at address 1 that share
  the key \<open>a\<close>.
\<close>

definition two_tables :: tables where
  "two_tables = (\<lambda>a. [])(0 := [(''a'', 10)], 1 := [(''a'', 20), (''b'', 30)])"

section \<open>Facts about the string functions\<close>

lemmas string_eval = TrimSpace_def isSpace_def ToLower_def toLowerByte_def

lemmas key_defs = KeyName_def KeyVersion_def KeySummary_def KeyHomePage_def KeyAuthor_def
  KeyAuthorEmail_def KeyLicense_def KeyLocation_def KeyRequires_def

lemma Split_not_Nil: "Split s sep \<noteq> []"
  by (induction s) (auto split: list.splits)

lemma Split_no_sep: "sep \<notin> set s \<Longrightarrow> Split s sep = [s]"
  by (induction s) auto

lemma Split_append_sep: "sep \<notin> set a \<Longrightarrow> Split (a @ sep # b) sep = a # Split b sep"
  by (induction a) auto

lemma Split_segments:
  "sep \<notin> set v \<Longrightarrow> \<forall>w\<in>set vs. sep \<notin> set w \<Longrightarrow>
   Split (v @ concat (map (\<lambda>w. sep # w) vs)) sep = v # vs"
proof (induction vs arbitrary: v)
  case Nil
  then show ?case by (simp add: Split_no_sep)
next
  case (Cons w ws)
  then show ?case by (simp add: Split_append_sep)
qed

lemma foldl_join:
  "foldl (\<lambda>v r. v @ sep # r) value vs = value @ concat (map (\<lambda>r. sep # r) vs)"
  by (induction vs arbitrary: "value") auto

lemma TrimSpace_all_space: "\<forall>c\<in>set ws. isSpace c \<Longrightarrow> TrimSpace ws = []"
proof -
  assume "\<forall>c\<in>set ws. isSpace c"
  then have d: "dropWhile isSpace ws = []" by (simp only: dropWhile_eq_Nil_conv)
  show ?thesis unfolding TrimSpace_def d by simp
qed

lemma colon_not_space: "\<not> isSpace CHR '':''"
  by (simp add: isSpace_def)

section \<open>The record parser\<close>

lemma parse_line_segments:
  assumes "CHR '':'' \<notin> set key" and "CHR '':'' \<notin> set v1"
    and "\<forall>v\<in>set vs. CHR '':'' \<notin> set v"
  shows "parse_line (key @ '':'' @ v1 @ concat (map (\<lambda>v. '':'' @ v) vs)) m =
         m(ToLower key \<mapsto> TrimSpace v1 @ concat (map (\<lambda>v. '':'' @ v) vs))"
proof -
  have "Split (key @ '':'' @ v1 @ concat (map (\<lambda>v. '':'' @ v) vs)) CHR '':'' = key # v1 # vs"
    using assms by (simp add: Split_append_sep Split_segments)
  then show ?thesis
    by (cases vs) (simp_all add: parse_line_def foldl_join)
qed

text \<open>
  C7, as the code has it. A line \<open>Key:V1:V2:...:Vn\<close> (the key and every \<open>Vi\<close> free
  of colons) is split on every colon; the value is element 1, trimmed of surrounding
  white space, with the elements from 2 on joined back, each behind a colon; it is
  stored under the lower-cased key. What follows the first segment of the value is kept
  byte for byte.
\<close>

theorem parse_line_rejoins_colons:
  assumes "CHR '':'' \<notin> set key" and "CHR '':'' \<notin> set v1"
    and "\<forall>v\<in>set vs. CHR '':'' \<notin> set v"
  shows "Split (key @ '':'' @ v1 @ concat (map (\<lambda>v. '':'' @ v) vs)) CHR '':'' = key # v1 # vs \<and>
         parse_line (key @ '':'' @ v1 @ concat (map (\<lambda>v. '':'' @ v) vs)) m =
         m(ToLower key \<mapsto> TrimSpace v1 @ concat (map (\<lambda>v. '':'' @ v) vs))"
proof
  show "Split (key @ '':'' @ v1 @ concat (map (\<lambda>v. '':'' @ v) vs)) CHR '':'' = key # v1 # vs"
    using assms by (simp add: Split_append_sep Split_segments)
  show "parse_line (key @ '':'' @ v1 @ concat (map (\<lambda>v. '':'' @ v) vs)) m =
         m(ToLower key \<mapsto> TrimSpace v1 @ concat (map (\<lambda>v. '':'' @ v) vs))"
    using assms by (rule parse_line_segments)
qed

theorem parse_line_rejoins_colons_witness:
  "CHR '':'' \<notin> set ''Home-page'' \<and> CHR '':'' \<notin> set '' https'' \<and>
   Split ''Home-page: https://example.com/pkg'' CHR '':'' =
     [''Home-page'', '' https'', ''//example.com/pkg''] \<and>
   parse_line ''Home-page: https://example.com/pkg'' Map.empty =
     [''home-page'' \<mapsto> ''https://example.com/pkg'']"
  using parse_line_rejoins_colons
    [of "''Home-page''" "'' https''" "[''//example.com/pkg'']" Map.empty]
  by (simp add: string_eval)

text \<open>
  The claim C7 fails in the white space of the first segment: element 1 goes through
  \<^verbatim>\<open>TrimSpace\<close> before the rest is joined back, so the value \<open>a : b\<close> is stored
  as \<open>a: b\<close>.
\<close>

theorem first_segment_is_trimmed:
  "parse_line ''Summary: a : b'' Map.empty ''summary'' = Some ''a: b'' \<and>
   spec_rejoined (Split ''Summary: a : b'' CHR '':'') = '' a : b''"
  by (simp add: parse_line_def spec_rejoined_def string_eval)

text \<open>
  C5, as the code has it. A line without a colon is skipped: the field map is left as
  it was. A line whose key is followed by a colon and no value (white space at most) is
  not skipped: it stores the empty string under the lower-cased key.
\<close>

theorem parse_line_skips_no_colon:
  "(CHR '':'' \<notin> set resline \<longrightarrow> parse_line resline m = m) \<and>
   (CHR '':'' \<notin> set key \<and> (\<forall>c\<in>set ws. isSpace c) \<longrightarrow>
      parse_line (key @ '':'' @ ws) m = m(ToLower key \<mapsto> []))"
proof (intro conjI impI)
  assume "CHR '':'' \<notin> set resline"
  then show "parse_line resline m = m"
    by (simp add: parse_line_def Split_no_sep)
next
  assume a: "CHR '':'' \<notin> set key \<and> (\<forall>c\<in>set ws. isSpace c)"
  then have "CHR '':'' \<notin> set ws" using colon_not_space by blast
  with a have "parse_line (key @ '':'' @ ws @ concat (map (\<lambda>v. '':'' @ v) [])) m =
         m(ToLower key \<mapsto> TrimSpace ws @ concat (map (\<lambda>v. '':'' @ v) []))"
    by (intro parse_line_segments) simp_all
  moreover have "TrimSpace ws = []" using a by (simp add: TrimSpace_all_space)
  ultimately show "parse_line (key @ '':'' @ ws) m = m(ToLower key \<mapsto> [])"
    by simp
qed

theorem parse_line_skips_no_colon_witness:
  "parse_line ''no colon here'' [''version'' \<mapsto> ''1.0''] = [''version'' \<mapsto> ''1.0''] \<and>
   parse_line ''Version: '' [''version'' \<mapsto> ''1.0''] = [''version'' \<mapsto> []]"
  using parse_line_skips_no_colon
    [of "''no colon here''" "[''version'' \<mapsto> ''1.0'']" "''Version''" "'' ''"]
  by (simp add: string_eval)

text \<open>
  The claim C5 fails for the key without a value: the line \<open>Version:\<close> adds the entry
  \<open>version\<close> to an empty field map, and replaces the value an earlier line stored.
\<close>

theorem key_without_value_is_stored:
  "parse_line ''Version:'' Map.empty ''version'' = Some [] \<and>
   parse_line ''Version:'' [''version'' \<mapsto> ''1.0''] ''version'' = Some [] \<and>
   Metadata.Version (ParseMetadata new_Metadata ''Version: 1.0\<newline>Version:'') = []"
  by (simp add: ParseMetadata_def SetMetadataValues_def index_datamap_def parse_lines_def
      parse_line_def string_eval key_defs)

text \<open>
  C8, as the code has it. A non-empty Requires value is split on commas, every element
  trimmed of surrounding white space, in order. An empty or absent value leaves the
  sequence of the record as it was: the nil slice in a new record.
\<close>

theorem SetMetadataValues_Requires:
  "Metadata.Modules (SetMetadataValues matadata datamap) =
     (if index_datamap datamap KeyRequires = [] then Metadata.Modules matadata
      else Some (map TrimSpace (Split (index_datamap datamap KeyRequires) CHR '','')))
   \<and> Metadata.Modules (SetMetadataValues matadata [KeyRequires \<mapsto> ''a, b ,c'']) =
       Some [''a'', ''b'', ''c'']
   \<and> Metadata.Modules (ParseMetadata matadata ''Requires: a, b ,c'') = Some [''a'', ''b'', ''c'']"
  by (simp add: SetMetadataValues_def ParseMetadata_def index_datamap_def
      parse_lines_def parse_line_def string_eval key_defs)

text \<open>
  The claim C8 fails in its last part: with an empty or an absent Requires the
  sequence of a new record is nil.
\<close>

theorem Requires_absent_is_nil:
  "Metadata.Modules (ParseMetadata new_Metadata ''Requires:'') = None \<and>
   Metadata.Modules (ParseMetadata new_Metadata ''Name: x'') = None \<and>
   Metadata.Modules (SetMetadataValues new_Metadata Map.empty) = None"
  by (simp add: SetMetadataValues_def ParseMetadata_def index_datamap_def
      parse_lines_def parse_line_def string_eval key_defs new_Metadata_def)

section \<open>Building a metadata record\<close>

lemma parse_lines_empty: "parse_lines [] = Map.empty"
  by (simp add: parse_lines_def parse_line_def)

lemma ParseMetadata_HomePage:
  "HomePage (ParseMetadata m s) = httpReplacer (index_datamap (parse_lines s) KeyHomePage)"
  by (simp add: ParseMetadata_def SetMetadataValues_def)

lemma BuildMetadata_HomePage:
  "HomePage (BuildMetadata hp d packagename metadata) =
     httpReplacer (index_datamap (parse_lines (fst (getPkgDetailsFunc d packagename))) KeyHomePage)"
  by (simp add: BuildMetadata_def Let_def case_prod_beta ParseMetadata_HomePage)

lemma BuildMetadata_PackageURL_eq:
  "Metadata.PackageURL (BuildMetadata hp d packagename metadata) =
     (if HomePage (BuildMetadata hp d packagename metadata) = []
      then BuildPackageUrl hp (Metadata.Name (BuildMetadata hp d packagename metadata))
             (Metadata.Version (BuildMetadata hp d packagename metadata))
      else HomePage (BuildMetadata hp d packagename metadata))"
  by (simp add: BuildMetadata_def Let_def case_prod_beta)

lemma parse_lines_example_homepage:
  "index_datamap (parse_lines ''Home-page: https://example.com/pkg'') KeyHomePage =
     ''https://example.com/pkg''"
  by (simp add: parse_lines_def parse_line_def index_datamap_def string_eval key_defs)

text \<open>
  C1, on the code. The fetch of \<^verbatim>\<open>pipenv.GetPackageDetails\<close> answers a failed
  command with the empty text and the error. \<^verbatim>\<open>BuildMetadata\<close> then sets the record
  to the sentinel and goes on to parse the empty text, which writes the empty string
  over Name and over every other field the sentinel was put in, whatever
  \<^verbatim>\<open>SetMetadataToNoAssertion\<close> had written.
\<close>

theorem BuildMetadata_fetch_error:
  "Metadata.Name (BuildMetadata hp (fetching [] (Some e)) packagename metadata) = [] \<and>
   Metadata.Version (BuildMetadata hp (fetching [] (Some e)) packagename metadata) = [] \<and>
   Description (BuildMetadata hp (fetching [] (Some e)) packagename metadata) = [] \<and>
   HomePage (BuildMetadata hp (fetching [] (Some e)) packagename metadata) = [] \<and>
   Author (BuildMetadata hp (fetching [] (Some e)) packagename metadata) = [] \<and>
   AuthorEmail (BuildMetadata hp (fetching [] (Some e)) packagename metadata) = [] \<and>
   License (BuildMetadata hp (fetching [] (Some e)) packagename metadata) = [] \<and>
   Location (BuildMetadata hp (fetching [] (Some e)) packagename metadata) = []"
  by (simp add: BuildMetadata_def fetching_def ParseMetadata_def parse_lines_empty
      SetMetadataValues_def index_datamap_def Let_def)

text \<open>
  C6, as the code has it. The HomePage of a record is the parsed Home-page value with
  every occurrence of \<open>https://\<close> and \<open>http://\<close> removed. The PackageURL is the
  registry template of Name and Version when that HomePage is empty, and the HomePage
  otherwise; the Home-page \<open>https://example.com/pkg\<close> gives \<open>example.com/pkg\<close>.
\<close>

theorem BuildMetadata_PackageURL:
  "HomePage (BuildMetadata hp d packagename metadata) =
     httpReplacer (index_datamap (parse_lines (fst (getPkgDetailsFunc d packagename))) KeyHomePage) \<and>
   Metadata.PackageURL (BuildMetadata hp d packagename metadata) =
     (if HomePage (BuildMetadata hp d packagename metadata) = []
      then BuildPackageUrl hp (Metadata.Name (BuildMetadata hp d packagename metadata))
             (Metadata.Version (BuildMetadata hp d packagename metadata))
      else HomePage (BuildMetadata hp d packagename metadata)) \<and>
   Metadata.PackageURL
     (BuildMetadata hp (fetching ''Home-page: https://example.com/pkg'' None) packagename metadata) =
     ''example.com/pkg''"
proof (intro conjI)
  show "HomePage (BuildMetadata hp d packagename metadata) =
     httpReplacer (index_datamap (parse_lines (fst (getPkgDetailsFunc d packagename))) KeyHomePage)"
    by (rule BuildMetadata_HomePage)
  show "Metadata.PackageURL (BuildMetadata hp d packagename metadata) =
     (if HomePage (BuildMetadata hp d packagename metadata) = []
      then BuildPackageUrl hp (Metadata.Name (BuildMetadata hp d packagename metadata))
             (Metadata.Version (BuildMetadata hp d packagename metadata))
      else HomePage (BuildMetadata hp d packagename metadata))"
    by (rule BuildMetadata_PackageURL_eq)
  have "HomePage (BuildMetadata hp (fetching ''Home-page: https://example.com/pkg'' None)
          packagename metadata) = ''example.com/pkg''"
    by (simp add: BuildMetadata_HomePage fetching_def parse_lines_example_homepage)
  then show "Metadata.PackageURL
     (BuildMetadata hp (fetching ''Home-page: https://example.com/pkg'' None) packagename metadata) =
     ''example.com/pkg''"
    by (simp add: BuildMetadata_PackageURL_eq)
qed

text \<open>
  The claim C6 fails where a scheme stands inside the Home-page value: the replacer
  removes it too, and the PackageURL is not the value with its leading scheme stripped.
\<close>

theorem PackageURL_inner_scheme:
  "Metadata.PackageURL
     (BuildMetadata spec_helpers (fetching ''Home-page: https://a.b/?r=http://c'' None)
        ''pkg'' new_Metadata) = ''a.b/?r=c'' \<and>
   spec_strip_leading_scheme ''https://a.b/?r=http://c'' = ''a.b/?r=http://c''"
proof -
  have "index_datamap (parse_lines ''Home-page: https://a.b/?r=http://c'') KeyHomePage =
     ''https://a.b/?r=http://c''"
    by (simp add: parse_lines_def parse_line_def index_datamap_def string_eval key_defs)
  then have "HomePage (BuildMetadata spec_helpers
       (fetching ''Home-page: https://a.b/?r=http://c'' None) ''pkg'' new_Metadata) = ''a.b/?r=c''"
    by (simp add: BuildMetadata_HomePage fetching_def)
  then have "Metadata.PackageURL (BuildMetadata spec_helpers
       (fetching ''Home-page: https://a.b/?r=http://c'' None) ''pkg'' new_Metadata) = ''a.b/?r=c''"
    by (simp add: BuildMetadata_PackageURL_eq)
  then show ?thesis by (simp add: spec_strip_leading_scheme_def)
qed

section \<open>The root module\<close>

lemma dedup_loop_filter:
  "0 < i \<Longrightarrow> dedup_loop rootMod i ms acc = acc @ filter (\<lambda>m. Name m \<noteq> Name rootMod) ms"
  by (induction ms arbitrary: i acc) simp_all

lemma RemoveDuplicateRootModule_Cons:
  "RemoveDuplicateRootModule (rootMod # ms) =
     Inr (rootMod # filter (\<lambda>m. Name m \<noteq> Name rootMod) ms)"
  by (simp add: RemoveDuplicateRootModule_def dedup_loop_filter)

lemma fetchRootModule_never_errs:
  "fetchRootModule m path = Inr (rootModule, err) \<Longrightarrow> err = None"
  by (auto simp: fetchRootModule_def Let_def split: if_splits prod.splits list.splits)

text \<open>
  C3, on the code. On an empty module list \<^verbatim>\<open>RemoveDuplicateRootModule\<close> panics
  with an index out of range, and so does \<^verbatim>\<open>fetchRootModule\<close> whenever the path is
  no valid root module, the push fails or no module was converted: no error is
  returned.
\<close>

theorem empty_module_list_panics:
  "RemoveDuplicateRootModule [] = Inl IndexOutOfRange \<and>
   fetchRootModule (m\<lparr>IsValidRootModule := (\<lambda>path. False)\<rparr>) path = Inl IndexOutOfRange \<and>
   fetchRootModule (m\<lparr>PushRootModuleToVenv := False\<rparr>) path = Inl IndexOutOfRange \<and>
   fetchRootModule (m\<lparr>ConvertMetadataToModules := (\<lambda>isRoot pkgs. [])\<rparr>) path = Inl IndexOutOfRange"
  by (simp add: RemoveDuplicateRootModule_def fetchRootModule_def Let_def split: prod.splits)

section \<open>Merging metadata tables\<close>

lemma merge_loop_Some:
  "\<exists>s'. merge_loop es (Some n) s = Inr s' \<and>
        map_of (s' n) = map_of (s n) ++ map_of (rev es) \<and> s' = s(n := s' n)"
proof (induction es arbitrary: s)
  case Nil
  then show ?case by (auto simp: fun_eq_iff)
next
  case (Cons e es)
  let ?s1 = "s(n := AList.update (fst e) (snd e) (s n))"
  from Cons obtain s' where s': "merge_loop es (Some n) ?s1 = Inr s'"
    "map_of (s' n) = map_of (?s1 n) ++ map_of (rev es)" "s' = ?s1(n := s' n)"
    by blast
  have "map_of (s' n) = map_of (s n) ++ map_of (rev (e # es))"
    using s'(2) by (cases e) (simp add: update_conv')
  moreover have "s' = s(n := s' n)"
    using s'(3) by (metis fun_upd_upd)
  moreover have "merge_loop (e # es) (Some n) s = Inr s'"
    using s'(1) by simp
  ultimately show ?case by blast
qed

lemma map_of_rev_distinct: "distinct (map fst es) \<Longrightarrow> map_of (rev es) = map_of es"
  by (subst map_of_inject_set) (simp_all add: rev_map [symmetric])

text \<open>
  C10. Called with a map object as its second argument (and a first argument that is
  nil or a map object, whose keys are distinct as those of any map),
  \<^verbatim>\<open>MergeMetadataMap\<close> returns that same object; afterwards the object holds its
  former entries overlaid with the root's, the root's winning; the root table reads as
  before, and no other map object has changed.
\<close>

theorem MergeMetadataMap_returns_nonroot:
  assumes "case root of None \<Rightarrow> True | Some r \<Rightarrow> distinct (map fst (s r))"
  shows "\<exists>s'. MergeMetadataMap root (Some n) s = Inr (Some n, s') \<and>
        map_of (s' n) = map_of (s n) ++ (case root of None \<Rightarrow> Map.empty | Some r \<Rightarrow> map_of (s r)) \<and>
        (case root of None \<Rightarrow> True | Some r \<Rightarrow> map_of (s' r) = map_of (s r)) \<and>
        s' = s(n := s' n)"
proof -
  let ?es = "case root of None \<Rightarrow> [] | Some r \<Rightarrow> s r"
  obtain s' where s': "merge_loop ?es (Some n) s = Inr s'"
    "map_of (s' n) = map_of (s n) ++ map_of (rev ?es)" "s' = s(n := s' n)"
    using merge_loop_Some [of ?es n s] by blast
  have "distinct (map fst ?es)"
    using assms by (cases root) simp_all
  then have m: "map_of (rev ?es) = map_of ?es"
    by (rule map_of_rev_distinct)
  have r: "MergeMetadataMap root (Some n) s = Inr (Some n, s')"
    using s'(1) by (simp add: MergeMetadataMap_def)
  have c: "map_of (s' n) = map_of (s n) ++ (case root of None \<Rightarrow> Map.empty | Some r \<Rightarrow> map_of (s r))"
    using s'(2) m by (cases root) simp_all
  have u: "case root of None \<Rightarrow> True | Some r \<Rightarrow> map_of (s' r) = map_of (s r)"
  proof (cases root)
    case None
    then show ?thesis by simp
  next
    case (Some r)
    show ?thesis
    proof (cases "r = n")
      case True
      have "map_of (s n) ++ map_of (s n) = map_of (s n)"
        by (rule ext) (simp add: map_add_def split: option.splits)
      with c Some True show ?thesis by simp
    next
      case False
      with s'(3) have "s' r = s r" by (metis fun_upd_other)
      with Some show ?thesis by simp
    qed
  qed
  from r c u s'(3) show ?thesis by blast
qed

theorem MergeMetadataMap_returns_nonroot_witness:
  "\<exists>s'. MergeMetadataMap (Some 0) (Some 1) two_tables = Inr (Some 1, s') \<and>
        map_of (s' 1) = [''a'' \<mapsto> 10, ''b'' \<mapsto> 30] \<and>
        map_of (s' 0) = [''a'' \<mapsto> 10]"
proof -
  have d: "case Some (0::nat) of None \<Rightarrow> True | Some r \<Rightarrow> distinct (map fst (two_tables r))"
    by (simp add: two_tables_def)
  from MergeMetadataMap_returns_nonroot [OF d, of 1]
  obtain s' where s': "MergeMetadataMap (Some 0) (Some 1) two_tables = Inr (Some 1, s')"
    "map_of (s' 1) = map_of (two_tables 1) ++ map_of (two_tables 0)"
    "map_of (s' 0) = map_of (two_tables 0)"
    by auto
  have "map_of (two_tables 1) ++ map_of (two_tables 0) = [''a'' \<mapsto> 10, ''b'' \<mapsto> 30]"
    by (auto simp: two_tables_def fun_eq_iff map_add_def)
  moreover have "map_of (two_tables 0) = [''a'' \<mapsto> 10]"
    by (simp add: two_tables_def)
  ultimately show ?thesis using s' by auto
qed

section \<open>The dependency graph\<close>

lemmas graph_eval = BuildDependencyGraph_def moduleMap_of_def index_moduleMap_def link_dep_def
  literal_of_def elements_def deps_after_def deps_of_def requiring_def new_Metadata_def
  modA_def modB_def modC_def modE_def three_maps_def empty_heap_def zero_Module_def
  modL_def licensed_heap_def listed_heap_def ToLower_def toLowerByte_def Let_def

text \<open>
  C2, on the code. Neither map read of \<^verbatim>\<open>BuildDependencyGraph\<close> tests whether the
  key is there. A dependency name that is not in the lookup reads as the zero module,
  and a copy of it is stored in the owner's map under the empty name: an entry is
  added. An owner that is not in the lookup reads as the zero module too, whose map is
  nil, and the store panics: the call does not return.
\<close>

theorem BuildDependencyGraph_miss:
  "deps_after (BuildDependencyGraph [modA] [(''a'', requiring ''A'' [''missing''])] three_maps) 0 [] =
     Inr (Some zero_Module) \<and>
   BuildDependencyGraph [modA] [(''x'', requiring ''X'' [''A''])] three_maps = Inl NilMapAssignment"
  by (simp add: graph_eval)

subsection \<open>The loops as a list of stores\<close>

lemma link_dep_edge:
  "link_dep moduleMap owner modname h =
     store_edge (Modules owner, index_moduleMap moduleMap (ToLower modname)) h"
  by (simp add: link_dep_def store_edge_def Let_def split: option.splits)

lemma link_deps_edges:
  "link_deps moduleMap owner names h =
     store_edges (map (\<lambda>modname. (Modules owner, index_moduleMap moduleMap (ToLower modname))) names) h"
  by (induction names arbitrary: h) (simp_all add: link_dep_edge split: sum.splits)

lemma store_edges_append:
  "store_edges (xs @ ys) h =
     (case store_edges xs h of Inl x \<Rightarrow> Inl x | Inr h' \<Rightarrow> store_edges ys h')"
  by (induction xs arbitrary: h) (simp_all split: sum.splits)

lemma link_all_edges: "link_all moduleMap pkgsMetadata h = store_edges (edges_of moduleMap pkgsMetadata) h"
proof (induction pkgsMetadata arbitrary: h)
  case Nil
  then show ?case by (simp add: edges_of_def)
next
  case (Cons entry rest)
  have "edges_of moduleMap (entry # rest) =
      map (\<lambda>modname.
               (Modules (index_moduleMap moduleMap (ToLower (Metadata.Name (snd entry)))),
                index_moduleMap moduleMap (ToLower modname)))
            (elements (Metadata.Modules (snd entry))) @ edges_of moduleMap rest"
    by (simp add: edges_of_def)
  then show ?case
    by (simp add: store_edges_append link_deps_edges Cons.IH split: sum.splits)
qed

lemma store_edges_panic:
  "\<exists>e\<in>set es. fst e = None \<Longrightarrow> store_edges es h = Inl NilMapAssignment"
proof (induction es arbitrary: h)
  case Nil
  then show ?case by simp
next
  case (Cons e es)
  show ?case
  proof (cases "fst e")
    case None
    then show ?thesis by (simp add: store_edge_def)
  next
    case (Some r)
    with Cons.prems have "\<exists>e\<in>set es. fst e = None" by auto
    then show ?thesis using Cons.IH Some by (simp add: store_edge_def)
  qed
qed

lemma store_edge_view:
  assumes "wf_heap h" and "store_edge e h = Inr h'" 
  shows "wf_heap h' \<and> nextmod h' = Suc (nextmod h) \<and>
         (\<exists>r. fst e = Some r \<and>
            deps_of h' = (deps_of h)(r := (deps_of h r)(Name (snd e) \<mapsto> literal_of (snd e))))"
proof -
  from assms(2) obtain r where r: "fst e = Some r"
    by (cases "fst e") (simp_all add: store_edge_def)
  with assms(2) have h': "h' = h\<lparr>mapobjs := (mapobjs h)(r := (mapobjs h r)(Name (snd e) \<mapsto> nextmod h)),
                 modobjs := (modobjs h)(nextmod h := literal_of (snd e)),
                 nextmod := Suc (nextmod h)\<rparr>"
    by (simp add: store_edge_def)
  have w: "wf_heap h'"
    using assms(1) unfolding wf_heap_def h' by (auto simp: less_Suc_eq split: if_splits)
  have "deps_of h' r' k = ((deps_of h)(r := (deps_of h r)(Name (snd e) \<mapsto> literal_of (snd e)))) r' k"
    for r' k
  proof (cases "r' = r \<and> k = Name (snd e)")
    case True
    then show ?thesis by (simp add: deps_of_def h')
  next
    case False
    then have m: "mapobjs h' r' k = mapobjs h r' k" by (auto simp: h')
    have "map_option (modobjs h') (mapobjs h r' k) = map_option (modobjs h) (mapobjs h r' k)"
    proof (cases "mapobjs h r' k")
      case None
      then show ?thesis by simp
    next
      case (Some p)
      with assms(1) have "p < nextmod h" by (auto simp: wf_heap_def)
      then show ?thesis using Some by (simp add: h')
    qed
    with m False show ?thesis by (auto simp: deps_of_def)
  qed
  then have "deps_of h' = (deps_of h)(r := (deps_of h r)(Name (snd e) \<mapsto> literal_of (snd e)))"
    by (intro ext)
  with w r show ?thesis by (simp add: h')
qed

lemma store_edges_ok:
  "\<forall>e\<in>set es. fst e \<noteq> None \<Longrightarrow> wf_heap h \<Longrightarrow>
   \<exists>h'. store_edges es h = Inr h' \<and> wf_heap h' \<and> nextmod h \<le> nextmod h' \<and>
        deps_of h' = view_edges es (deps_of h)"
proof (induction es arbitrary: h)
  case Nil
  then show ?case by simp
next
  case (Cons e es)
  from Cons.prems(1) obtain r where r: "fst e = Some r" by auto
  then obtain h1 where h1: "store_edge e h = Inr h1"
    by (simp add: store_edge_def)
  from store_edge_view [OF Cons.prems(2) h1] r
  have w1: "wf_heap h1" and n1: "nextmod h1 = Suc (nextmod h)"
    and v1: "deps_of h1 = (deps_of h)(r := (deps_of h r)(Name (snd e) \<mapsto> literal_of (snd e)))"
    by auto
  from Cons.prems(1) have "\<forall>e\<in>set es. fst e \<noteq> None" by simp
  from Cons.IH [OF this w1] obtain h' where h': "store_edges es h1 = Inr h'" "wf_heap h'"
    "nextmod h1 \<le> nextmod h'" "deps_of h' = view_edges es (deps_of h1)"
    by blast
  have "store_edges (e # es) h = Inr h'" using h1 h'(1) by simp
  moreover have "deps_of h' = view_edges (e # es) (deps_of h)"
    using h'(4) v1 r by simp
  moreover have "nextmod h \<le> nextmod h'" using n1 h'(3) by simp
  ultimately show ?case using h'(2) by blast
qed

subsection \<open>The maps after a list of stores\<close>

lemma view_out:
  "\<forall>e\<in>set es. fst e = Some r \<longrightarrow> Name (snd e) \<noteq> k \<Longrightarrow> view_edges es v r k = v r k"
proof (induction es arbitrary: v)
  case Nil
  then show ?case by simp
next
  case (Cons e es)
  then show ?case by (cases "fst e") auto
qed

lemma view_keep:
  "v r k = Some V \<Longrightarrow>
   \<forall>e\<in>set es. fst e = Some r \<and> Name (snd e) = k \<longrightarrow> literal_of (snd e) = V \<Longrightarrow>
   view_edges es v r k = Some V"
proof (induction es arbitrary: v)
  case Nil
  then show ?case by simp
next
  case (Cons e es)
  let ?v1 = "case fst e of None \<Rightarrow> v
             | Some r' \<Rightarrow> v(r' := (v r')(Name (snd e) \<mapsto> literal_of (snd e)))"
  have "?v1 r k = Some V"
    using Cons.prems by (cases "fst e") auto
  moreover have "\<forall>e\<in>set es. fst e = Some r \<and> Name (snd e) = k \<longrightarrow> literal_of (snd e) = V"
    using Cons.prems(2) by simp
  ultimately have "view_edges es ?v1 r k = Some V" by (rule Cons.IH)
  then show ?case by simp
qed

lemma view_in:
  "e \<in> set es \<Longrightarrow> fst e = Some r \<Longrightarrow>
   \<forall>x\<in>set es. fst x = Some r \<and> Name (snd x) = Name (snd e) \<longrightarrow> literal_of (snd x) = literal_of (snd e) \<Longrightarrow>
   view_edges es v r (Name (snd e)) = Some (literal_of (snd e))"
proof (induction es arbitrary: v)
  case Nil
  then show ?case by simp
next
  case (Cons x xs)
  let ?v1 = "case fst x of None \<Rightarrow> v
             | Some r' \<Rightarrow> v(r' := (v r')(Name (snd x) \<mapsto> literal_of (snd x)))"
  have rest: "\<forall>y\<in>set xs. fst y = Some r \<and> Name (snd y) = Name (snd e) \<longrightarrow>
                literal_of (snd y) = literal_of (snd e)"
    using Cons.prems(3) by simp
  show ?case
  proof (cases "e \<in> set xs")
    case True
    from Cons.IH [OF True Cons.prems(2) rest] show ?thesis by simp
  next
    case False
    with Cons.prems(1) have "x = e" by simp
    with Cons.prems(2) have "?v1 r (Name (snd e)) = Some (literal_of (snd e))" by simp
    then have "view_edges xs ?v1 r (Name (snd e)) = Some (literal_of (snd e))"
      using rest by (rule view_keep)
    then show ?thesis by simp
  qed
qed

lemma consistentD:
  "consistent es \<Longrightarrow> e \<in> set es \<Longrightarrow> x \<in> set es \<Longrightarrow> fst x = fst e \<Longrightarrow>
   Name (snd x) = Name (snd e) \<Longrightarrow> literal_of (snd x) = literal_of (snd e)"
  unfolding consistent_def by blast

lemma view_edges_cong_set:
  assumes "set es2 = set es1" and "consistent es1"
  shows "view_edges es2 v = view_edges es1 v"
proof (intro ext)
  fix r k
  show "view_edges es2 v r k = view_edges es1 v r k"
  proof (cases "\<exists>e\<in>set es1. fst e = Some r \<and> Name (snd e) = k")
    case True
    then obtain e where e: "e \<in> set es1" "fst e = Some r" "Name (snd e) = k" by blast
    have c: "\<forall>x\<in>set es1. fst x = Some r \<and> Name (snd x) = Name (snd e) \<longrightarrow>
               literal_of (snd x) = literal_of (snd e)"
      using consistentD [OF assms(2) e(1)] e(2) by simp
    have "view_edges es1 v r (Name (snd e)) = Some (literal_of (snd e))"
      using e(1) e(2) c by (rule view_in)
    moreover have "view_edges es2 v r (Name (snd e)) = Some (literal_of (snd e))"
      using e(1) e(2) c unfolding assms(1) [symmetric] by (rule view_in)
    ultimately show ?thesis using e(3) by simp
  next
    case False
    then have n: "\<forall>e\<in>set es1. fst e = Some r \<longrightarrow> Name (snd e) \<noteq> k" by blast
    have "view_edges es1 v r k = v r k" using n by (rule view_out)
    moreover have "view_edges es2 v r k = v r k"
      using n unfolding assms(1) [symmetric] by (rule view_out)
    ultimately show ?thesis by simp
  qed
qed

lemma view_edges_again:
  assumes "set es2 = set es1" and "consistent es1"
  shows "view_edges es2 (view_edges es1 v) = view_edges es1 v"
proof (intro ext)
  fix r k
  show "view_edges es2 (view_edges es1 v) r k = view_edges es1 v r k"
  proof (cases "\<exists>e\<in>set es1. fst e = Some r \<and> Name (snd e) = k")
    case True
    then obtain e where e: "e \<in> set es1" "fst e = Some r" "Name (snd e) = k" by blast
    have c: "\<forall>x\<in>set es1. fst x = Some r \<and> Name (snd x) = Name (snd e) \<longrightarrow>
               literal_of (snd x) = literal_of (snd e)"
      using consistentD [OF assms(2) e(1)] e(2) by simp
    have "view_edges es1 v r (Name (snd e)) = Some (literal_of (snd e))"
      using e(1) e(2) c by (rule view_in)
    moreover have "view_edges es2 (view_edges es1 v) r (Name (snd e)) = Some (literal_of (snd e))"
      using e(1) e(2) c unfolding assms(1) [symmetric] by (rule view_in)
    ultimately show ?thesis using e(3) by simp
  next
    case False
    then have n: "\<forall>e\<in>set es1. fst e = Some r \<longrightarrow> Name (snd e) \<noteq> k" by blast
    show ?thesis using n unfolding assms(1) [symmetric] by (rule view_out)
  qed
qed

lemma moduleMap_of_key_aux:
  "\<forall>k m. acc k = Some m \<longrightarrow> ToLower (Name m) = k \<Longrightarrow>
   foldl (\<lambda>moduleMap module. moduleMap(ToLower (Name module) \<mapsto> module)) acc modules k = Some m \<Longrightarrow>
   ToLower (Name m) = k"
proof (induction modules arbitrary: acc)
  case Nil
  then show ?case by simp
next
  case (Cons x xs)
  have "\<forall>k m. (acc(ToLower (Name x) \<mapsto> x)) k = Some m \<longrightarrow> ToLower (Name m) = k"
    using Cons.prems(1) by auto
  from Cons.IH [OF this] Cons.prems(2) show ?case by simp
qed

lemma moduleMap_of_key: "moduleMap_of modules k = Some m \<Longrightarrow> ToLower (Name m) = k"
  unfolding moduleMap_of_def by (rule moduleMap_of_key_aux [of Map.empty]) simp_all

lemma set_edges_of:
  "set (edges_of moduleMap pkgsMetadata) =
     (\<Union>entry\<in>set pkgsMetadata.
        (\<lambda>modname. (Modules (index_moduleMap moduleMap (ToLower (Metadata.Name (snd entry)))),
                     index_moduleMap moduleMap (ToLower modname))) `
        set (elements (Metadata.Modules (snd entry))))"
  by (simp add: edges_of_def)

lemma resolves_consistent:
  assumes "resolves modules pkgsMetadata"
  shows "consistent (edges_of (moduleMap_of modules) pkgsMetadata)"
proof -
  have d: "\<exists>n. moduleMap_of modules (ToLower n) = Some (snd e)"
    if "e \<in> set (edges_of (moduleMap_of modules) pkgsMetadata)" for e
  proof -
    from that obtain entry modname where
      "entry \<in> set pkgsMetadata" "modname \<in> set (elements (Metadata.Modules (snd entry)))"
      "snd e = index_moduleMap (moduleMap_of modules) (ToLower modname)"
      by (auto simp: set_edges_of)
    moreover from this assms have "moduleMap_of modules (ToLower modname) \<noteq> None"
      by (auto simp: resolves_def)
    ultimately show ?thesis by (auto simp: index_moduleMap_def)
  qed
  show ?thesis
    unfolding consistent_def
  proof (intro ballI impI)
    fix e1 e2
    assume e1: "e1 \<in> set (edges_of (moduleMap_of modules) pkgsMetadata)"
      and e2: "e2 \<in> set (edges_of (moduleMap_of modules) pkgsMetadata)"
      and eq: "fst e1 = fst e2 \<and> Name (snd e1) = Name (snd e2)"
    from d [OF e1] obtain n1 where n1: "moduleMap_of modules (ToLower n1) = Some (snd e1)" ..
    from d [OF e2] obtain n2 where n2: "moduleMap_of modules (ToLower n2) = Some (snd e2)" ..
    from moduleMap_of_key [OF n1] moduleMap_of_key [OF n2] eq
    have "ToLower n1 = ToLower n2" by simp
    with n1 n2 have "snd e1 = snd e2" by simp
    then show "literal_of (snd e1) = literal_of (snd e2)" by simp
  qed
qed

lemma BuildDependencyGraph_edges:
  "BuildDependencyGraph modules pkgsMetadata h =
     (case store_edges (edges_of (moduleMap_of modules) pkgsMetadata) h of
        Inl e \<Rightarrow> Inl e | Inr h' \<Rightarrow> Inr (None, h'))"
  by (simp add: BuildDependencyGraph_def link_all_edges)

lemma set_edges_of_cong:
  "set t2 = set t1 \<Longrightarrow> set (edges_of moduleMap t2) = set (edges_of moduleMap t1)"
  by (simp add: set_edges_of)

text \<open>
  Where every dependency name of the table is a key of the module lookup, two stores
  into the same map under the same key store the same value, and the outcome of linking
  does not depend on the order in which the table is visited, nor on a run before.
\<close>

lemma resolved_linking_order_independent:
  assumes "wf_heap h" and "set t2 = set t1" and "resolves modules t1"
  shows "maps_after (BuildDependencyGraph modules t2 h) =
         maps_after (BuildDependencyGraph modules t1 h) \<and>
         (\<forall>res. BuildDependencyGraph modules t1 h = Inr res \<longrightarrow>
            maps_after (BuildDependencyGraph modules t2 (snd res)) = Inr (deps_of (snd res)))"
proof -
  let ?es1 = "edges_of (moduleMap_of modules) t1"
  let ?es2 = "edges_of (moduleMap_of modules) t2"
  have s: "set ?es2 = set ?es1" using assms(2) by (rule set_edges_of_cong)
  have c: "consistent ?es1" using assms(3) by (rule resolves_consistent)
  show ?thesis
  proof (cases "\<exists>e\<in>set ?es1. fst e = None")
    case True
    then have "store_edges ?es1 h = Inl NilMapAssignment" by (rule store_edges_panic)
    moreover from True s have "\<exists>e\<in>set ?es2. fst e = None" by simp
    then have "store_edges ?es2 h = Inl NilMapAssignment" by (rule store_edges_panic)
    ultimately show ?thesis by (simp add: BuildDependencyGraph_edges maps_after_def)
  next
    case False
    then have a1: "\<forall>e\<in>set ?es1. fst e \<noteq> None" by simp
    with s have a2: "\<forall>e\<in>set ?es2. fst e \<noteq> None" by simp
    from store_edges_ok [OF a1 assms(1)] obtain h1 where h1: "store_edges ?es1 h = Inr h1"
      "wf_heap h1" "deps_of h1 = view_edges ?es1 (deps_of h)" by blast
    from store_edges_ok [OF a2 assms(1)] obtain h2 where h2: "store_edges ?es2 h = Inr h2"
      "deps_of h2 = view_edges ?es2 (deps_of h)" by blast
    from store_edges_ok [OF a2 h1(2)] obtain h3 where h3: "store_edges ?es2 h1 = Inr h3"
      "deps_of h3 = view_edges ?es2 (deps_of h1)" by blast
    have "deps_of h2 = deps_of h1"
      using h2(2) h1(3) view_edges_cong_set [OF s c] by simp
    moreover have "deps_of h3 = deps_of h1"
      using h3(2) h1(3) view_edges_again [OF s c] by simp
    ultimately show ?thesis
      using h1(1) h2(1) h3(1) by (auto simp: BuildDependencyGraph_edges maps_after_def)
  qed
qed

lemma resolved_linking_order_independent_example:
  "wf_heap three_maps \<and>
   resolves [modA, modB, modC] [(''a'', requiring ''A'' [''B'']), (''b'', requiring ''B'' [''C''])] \<and>
   maps_after (BuildDependencyGraph [modA, modB, modC]
       [(''b'', requiring ''B'' [''C'']), (''a'', requiring ''A'' [''B''])] three_maps) =
   maps_after (BuildDependencyGraph [modA, modB, modC]
       [(''a'', requiring ''A'' [''B'']), (''b'', requiring ''B'' [''C''])] three_maps)"
proof -
  have w: "wf_heap three_maps"
    by (simp add: wf_heap_def three_maps_def empty_heap_def)
  have r: "resolves [modA, modB, modC]
      [(''a'', requiring ''A'' [''B'']), (''b'', requiring ''B'' [''C''])]"
    by (simp add: resolves_def graph_eval)
  have s: "set [(''b'', requiring ''B'' [''C'']), (''a'', requiring ''A'' [''B''])] =
           set [(''a'', requiring ''A'' [''B'']), (''b'', requiring ''B'' [''C''])]"
    by auto
  from resolved_linking_order_independent [OF w s r] w r show ?thesis by blast
qed

text \<open>
  C9, on the code. Linking is not independent of the order in which the table is
  visited. A dependency name that does not resolve stores the zero module under the
  empty name, where the copy of a module with an empty name is stored too; which of the
  two stays depends on the order. Two records of the owner A, one requiring the empty
  name and one requiring a missing package: visited in one order A's map holds the zero
  module under the empty name, in the other order the copy of \<open>modE\<close>; and a second
  call in the other order does not leave the maps as the first call left them.
\<close>

theorem linking_depends_on_order:
  "deps_after (BuildDependencyGraph [modA, modE]
      [(''a'', requiring ''A'' [[]]), (''a2'', requiring ''A'' [''missing''])] three_maps) 0 [] =
     Inr (Some zero_Module) \<and>
   deps_after (BuildDependencyGraph [modA, modE]
      [(''a2'', requiring ''A'' [''missing'']), (''a'', requiring ''A'' [[]])] three_maps) 0 [] =
     Inr (Some (modE\<lparr>Modules := None\<rparr>)) \<and>
   deps_after (relink (BuildDependencyGraph [modA, modE]
        [(''a'', requiring ''A'' [[]]), (''a2'', requiring ''A'' [''missing''])] three_maps)
      [modA, modE] [(''a2'', requiring ''A'' [''missing'']), (''a'', requiring ''A'' [[]])]) 0 [] =
     Inr (Some (modE\<lparr>Modules := None\<rparr>)) \<and>
   modE\<lparr>Modules := None\<rparr> \<noteq> zero_Module"
  by (simp add: graph_eval relink_def)

subsection \<open>The pointer a store leaves\<close>

lemma store_edge_Inr:
  "store_edge e h = Inr h1 \<Longrightarrow>
   \<exists>r. fst e = Some r \<and>
       mapobjs h1 = (mapobjs h)(r := (mapobjs h r)(Name (snd e) \<mapsto> nextmod h)) \<and>
       modobjs h1 = (modobjs h)(nextmod h := literal_of (snd e)) \<and>
       nextmod h1 = Suc (nextmod h)"
  by (cases "fst e") (auto simp: store_edge_def)

lemma pointer_step:
  assumes "store_edge e h = Inr h1"
    and "\<exists>p. lo \<le> p \<and> p < nextmod h \<and> mapobjs h r k = Some p \<and> modobjs h p = V"
    and "fst e = Some r \<and> Name (snd e) = k \<longrightarrow> literal_of (snd e) = V"
  shows "\<exists>p. lo \<le> p \<and> p < nextmod h1 \<and> mapobjs h1 r k = Some p \<and> modobjs h1 p = V"
proof -
  from store_edge_Inr [OF assms(1)] obtain r' where r': "fst e = Some r'"
    "mapobjs h1 = (mapobjs h)(r' := (mapobjs h r')(Name (snd e) \<mapsto> nextmod h))"
    "modobjs h1 = (modobjs h)(nextmod h := literal_of (snd e))"
    "nextmod h1 = Suc (nextmod h)"
    by blast
  from assms(2) obtain p where p: "lo \<le> p" "p < nextmod h" "mapobjs h r k = Some p"
    "modobjs h p = V" by blast
  show ?thesis
  proof (cases "r' = r \<and> Name (snd e) = k")
    case True
    with assms(3) r'(1) have "literal_of (snd e) = V" by simp
    with True r' p(1) p(2) have "lo \<le> nextmod h \<and> nextmod h < nextmod h1 \<and>
        mapobjs h1 r k = Some (nextmod h) \<and> modobjs h1 (nextmod h) = V"
      by simp
    then show ?thesis by blast
  next
    case False
    with r' p have "lo \<le> p \<and> p < nextmod h1 \<and> mapobjs h1 r k = Some p \<and> modobjs h1 p = V"
      by auto
    then show ?thesis by blast
  qed
qed

lemma pointer_keep:
  "store_edges es h = Inr h' \<Longrightarrow>
   \<exists>p. lo \<le> p \<and> p < nextmod h \<and> mapobjs h r k = Some p \<and> modobjs h p = V \<Longrightarrow>
   \<forall>e\<in>set es. fst e = Some r \<and> Name (snd e) = k \<longrightarrow> literal_of (snd e) = V \<Longrightarrow>
   \<exists>p. lo \<le> p \<and> p < nextmod h' \<and> mapobjs h' r k = Some p \<and> modobjs h' p = V"
proof (induction es arbitrary: h)
  case Nil
  then show ?case by simp
next
  case (Cons e es)
  from Cons.prems(1) obtain h1 where h1: "store_edge e h = Inr h1" "store_edges es h1 = Inr h'"
    by (auto split: sum.splits)
  have "fst e = Some r \<and> Name (snd e) = k \<longrightarrow> literal_of (snd e) = V"
    using Cons.prems(3) by simp
  with h1(1) Cons.prems(2)
  have "\<exists>p. lo \<le> p \<and> p < nextmod h1 \<and> mapobjs h1 r k = Some p \<and> modobjs h1 p = V"
    by (rule pointer_step)
  moreover have "\<forall>e\<in>set es. fst e = Some r \<and> Name (snd e) = k \<longrightarrow> literal_of (snd e) = V"
    using Cons.prems(3) by simp
  ultimately show ?case using h1(2) Cons.IH by blast
qed

lemma pointer_in:
  "store_edges es h = Inr h' \<Longrightarrow> e \<in> set es \<Longrightarrow> fst e = Some r \<Longrightarrow>
   \<forall>x\<in>set es. fst x = Some r \<and> Name (snd x) = Name (snd e) \<longrightarrow>
     literal_of (snd x) = literal_of (snd e) \<Longrightarrow>
   \<exists>p. nextmod h \<le> p \<and> p < nextmod h' \<and> mapobjs h' r (Name (snd e)) = Some p \<and>
       modobjs h' p = literal_of (snd e)"
proof (induction es arbitrary: h)
  case Nil
  then show ?case by simp
next
  case (Cons x xs)
  from Cons.prems(1) obtain h1 where h1: "store_edge x h = Inr h1" "store_edges xs h1 = Inr h'"
    by (auto split: sum.splits)
  from store_edge_Inr [OF h1(1)] obtain r' where r': "fst x = Some r'"
    "mapobjs h1 = (mapobjs h)(r' := (mapobjs h r')(Name (snd x) \<mapsto> nextmod h))"
    "modobjs h1 = (modobjs h)(nextmod h := literal_of (snd x))"
    "nextmod h1 = Suc (nextmod h)"
    by blast
  have rest: "\<forall>y\<in>set xs. fst y = Some r \<and> Name (snd y) = Name (snd e) \<longrightarrow>
                literal_of (snd y) = literal_of (snd e)"
    using Cons.prems(4) by simp
  show ?case
  proof (cases "e \<in> set xs")
    case True
    from Cons.IH [OF h1(2) True Cons.prems(3) rest] obtain p where
      "nextmod h1 \<le> p \<and> p < nextmod h' \<and> mapobjs h' r (Name (snd e)) = Some p \<and>
       modobjs h' p = literal_of (snd e)" by blast
    with r'(4) have "nextmod h \<le> p \<and> p < nextmod h' \<and> mapobjs h' r (Name (snd e)) = Some p \<and>
       modobjs h' p = literal_of (snd e)" by simp
    then show ?thesis by blast
  next
    case False
    with Cons.prems(2) have xe: "x = e" by simp
    with r' Cons.prems(3) have "nextmod h \<le> nextmod h \<and> nextmod h < nextmod h1 \<and>
        mapobjs h1 r (Name (snd e)) = Some (nextmod h) \<and>
        modobjs h1 (nextmod h) = literal_of (snd e)"
      by simp
    then have "\<exists>p. nextmod h \<le> p \<and> p < nextmod h1 \<and> mapobjs h1 r (Name (snd e)) = Some p \<and>
        modobjs h1 p = literal_of (snd e)" by blast
    with h1(2) show ?thesis using rest by (rule pointer_keep)
  qed
qed

lemma literal_of_eq: "literal_of D = D\<lparr>Modules := None\<rparr>"
  by (cases D) (simp add: literal_of_def)

lemma store_edge_frame:
  "store_edge e h = Inr h1 \<Longrightarrow>
   licarrays h1 = licarrays h \<and> nextmod h1 = Suc (nextmod h) \<and>
   (\<forall>q<nextmod h. modobjs h1 q = modobjs h q)"
  by (cases "fst e") (auto simp: store_edge_def)

lemma store_edges_frame:
  "store_edges es h = Inr h' \<Longrightarrow>
   licarrays h' = licarrays h \<and> nextmod h \<le> nextmod h' \<and>
   (\<forall>q<nextmod h. modobjs h' q = modobjs h q)"
proof (induction es arbitrary: h)
  case Nil
  then show ?case by simp
next
  case (Cons e es)
  from Cons.prems obtain h1 where h1: "store_edge e h = Inr h1" "store_edges es h1 = Inr h'"
    by (auto split: sum.splits)
  from store_edge_frame [OF h1(1)]
  have f1: "licarrays h1 = licarrays h" "nextmod h1 = Suc (nextmod h)"
    "\<forall>q<nextmod h. modobjs h1 q = modobjs h q" by auto
  from Cons.IH [OF h1(2)]
  have f2: "licarrays h' = licarrays h1" "nextmod h1 \<le> nextmod h'"
    "\<forall>q<nextmod h1. modobjs h' q = modobjs h1 q" by auto
  show ?case using f1 f2 by auto
qed

text \<open>
  C4, as the code has it. When linking returns, then for every record of the table
  whose owner \<open>M\<close> is in the lookup and every dependency name of it that reads as a
  module \<open>D\<close> of the lookup with a non-empty name, the owner's map holds under \<open>D\<close>'s
  exact-cased name a pointer \<open>p\<close> allocated by this call, and the module there equals
  \<open>D\<close> in every field but \<open>Modules\<close>, which is nil in the copy. The copy is an
  object of its own: an assignment to its fields leaves every module object that was
  there before the call as it was before the call (the elements of the module list
  among them, at whatever addresses \<open>locs\<close> they are), and leaves the maps and the
  licence arrays alone. Its licence slice is \<open>D\<close>'s: a store into an element of it is
  the same store as through \<open>D\<close>, and it reads the same licence pointers as \<open>D\<close>'s in
  every heap.
\<close>

theorem BuildDependencyGraph_inserts_copy:
  assumes "BuildDependencyGraph modules pkgsMetadata h = Inr (err, h')"
    and "entry \<in> set pkgsMetadata"
    and "modname \<in> set (elements (Metadata.Modules (snd entry)))"
    and "moduleMap_of modules (ToLower (Metadata.Name (snd entry))) = Some M"
    and "moduleMap_of modules (ToLower modname) = Some D"
    and "Name D \<noteq> []"
  shows "err = None \<and>
         (\<exists>r p. Modules M = Some r \<and> mapobjs h' r (Name D) = Some p \<and>
                nextmod h \<le> p \<and> p < nextmod h' \<and> modobjs h' p = D\<lparr>Modules := None\<rparr> \<and>
                (\<forall>f q. q < nextmod h \<longrightarrow> modobjs (assign_field p f h') q = modobjs h q) \<and>
                (\<forall>f locs. (\<forall>q\<in>set locs. q < nextmod h) \<longrightarrow>
                   map (modobjs (assign_field p f h')) locs = map (modobjs h) locs) \<and>
                (\<forall>f. mapobjs (assign_field p f h') = mapobjs h' \<and>
                     licarrays (assign_field p f h') = licarrays h) \<and>
                (\<forall>i v. assign_element (OtherLicense (modobjs h' p)) i v h' =
                       assign_element (OtherLicense D) i v h') \<and>
                (\<forall>h''. licences_of h'' (modobjs h' p) = licences_of h'' D))"
proof -
  let ?mm = "moduleMap_of modules"
  let ?es = "edges_of ?mm pkgsMetadata"
  from assms(1) have run: "store_edges ?es h = Inr h'" and err: "err = None"
    by (auto simp: BuildDependencyGraph_edges split: sum.splits)
  have e: "(Modules M, D) \<in> set ?es"
    unfolding set_edges_of using assms(2-5) by (force simp: index_moduleMap_def)
  obtain r where r: "Modules M = Some r"
  proof (cases "Modules M")
    case None
    with e have "\<exists>e\<in>set ?es. fst e = None" by force
    then have "store_edges ?es h = Inl NilMapAssignment" by (rule store_edges_panic)
    with run show ?thesis by simp
  next
    case (Some r)
    then show ?thesis by (rule that)
  qed
  have c: "\<forall>x\<in>set ?es. fst x = Some r \<and> Name (snd x) = Name (snd (Modules M, D)) \<longrightarrow>
             literal_of (snd x) = literal_of (snd (Modules M, D))"
  proof (intro ballI impI)
    fix x
    assume x: "x \<in> set ?es" and "fst x = Some r \<and> Name (snd x) = Name (snd (Modules M, D))"
    then have n: "Name (snd x) = Name D" by simp
    from x obtain n' where n': "snd x = index_moduleMap ?mm (ToLower n')"
      by (auto simp: set_edges_of)
    have "snd x = D"
    proof (cases "?mm (ToLower n')")
      case None
      with n' have "Name (snd x) = []" by (simp add: index_moduleMap_def zero_Module_def)
      with n assms(6) show ?thesis by simp
    next
      case (Some d)
      with n' have d: "snd x = d" by (simp add: index_moduleMap_def)
      from moduleMap_of_key [OF Some] d n have "ToLower n' = ToLower (Name D)" by simp
      also from moduleMap_of_key [OF assms(5)] have "ToLower (Name D) = ToLower modname" .
      finally show ?thesis using Some assms(5) d by simp
    qed
    then show "literal_of (snd x) = literal_of (snd (Modules M, D))" by simp
  qed
  have "\<exists>p. nextmod h \<le> p \<and> p < nextmod h' \<and>
          mapobjs h' r (Name (snd (Modules M, D))) = Some p \<and>
          modobjs h' p = literal_of (snd (Modules M, D))"
    using run e _ c by (rule pointer_in) (simp add: r)
  then obtain p where p: "nextmod h \<le> p" "p < nextmod h'" "mapobjs h' r (Name D) = Some p"
    "modobjs h' p = D\<lparr>Modules := None\<rparr>"
    by (auto simp: literal_of_eq)
  from store_edges_frame [OF run]
  have fr: "licarrays h' = licarrays h" "\<forall>q<nextmod h. modobjs h' q = modobjs h q" by auto
  have old: "modobjs (assign_field p f h') q = modobjs h q" if "q < nextmod h" for f q
  proof -
    from that p(1) have "q \<noteq> p" by simp
    then have "modobjs (assign_field p f h') q = modobjs h' q"
      by (simp add: assign_field_def)
    with fr(2) that show ?thesis by simp
  qed
  have w1: "\<forall>f q. q < nextmod h \<longrightarrow> modobjs (assign_field p f h') q = modobjs h q"
    using old by blast
  have w2: "\<forall>f locs. (\<forall>q\<in>set locs. q < nextmod h) \<longrightarrow>
              map (modobjs (assign_field p f h')) locs = map (modobjs h) locs"
    using old by (simp add: map_eq_conv)
  have w3: "\<forall>f. mapobjs (assign_field p f h') = mapobjs h' \<and>
               licarrays (assign_field p f h') = licarrays h"
    using fr(1) by (simp add: assign_field_def)
  have w4: "\<forall>i v. assign_element (OtherLicense (modobjs h' p)) i v h' =
                  assign_element (OtherLicense D) i v h'"
    using p(4) by simp
  have w5: "\<forall>h''. licences_of h'' (modobjs h' p) = licences_of h'' D"
    using p(4) by (simp add: licences_of_def)
  from r p w1 w2 w3 w4 w5 have
    "Modules M = Some r \<and> mapobjs h' r (Name D) = Some p \<and>
     nextmod h \<le> p \<and> p < nextmod h' \<and> modobjs h' p = D\<lparr>Modules := None\<rparr> \<and>
     (\<forall>f q. q < nextmod h \<longrightarrow> modobjs (assign_field p f h') q = modobjs h q) \<and>
     (\<forall>f locs. (\<forall>q\<in>set locs. q < nextmod h) \<longrightarrow>
        map (modobjs (assign_field p f h')) locs = map (modobjs h) locs) \<and>
     (\<forall>f. mapobjs (assign_field p f h') = mapobjs h' \<and>
          licarrays (assign_field p f h') = licarrays h) \<and>
     (\<forall>i v. assign_element (OtherLicense (modobjs h' p)) i v h' =
            assign_element (OtherLicense D) i v h') \<and>
     (\<forall>h''. licences_of h'' (modobjs h' p) = licences_of h'' D)"
    by (intro conjI)
  then show ?thesis using err by blast
qed

theorem BuildDependencyGraph_inserts_copy_witness:
  "\<exists>h'. BuildDependencyGraph [modA, modL] [(''a'', requiring ''A'' [''L''])] listed_heap = Inr (None, h') \<and>
        (\<exists>r p. Modules modA = Some r \<and> mapobjs h' r ''L'' = Some p \<and>
               nextmod listed_heap \<le> p \<and> p < nextmod h' \<and> modobjs h' p = modL\<lparr>Modules := None\<rparr> \<and>
               map (modobjs (assign_field p (\<lambda>m. m\<lparr>Version := ''9.9''\<rparr>) h')) [0, 1] = [modA, modL])"
proof -
  have "\<exists>res. BuildDependencyGraph [modA, modL] [(''a'', requiring ''A'' [''L''])] listed_heap = Inr res"
    by (simp add: graph_eval)
  then obtain err h' where run:
    "BuildDependencyGraph [modA, modL] [(''a'', requiring ''A'' [''L''])] listed_heap = Inr (err, h')"
    by force
  have a: "(''a'', requiring ''A'' [''L'']) \<in> set [(''a'', requiring ''A'' [''L''])]" by simp
  have b: "''L'' \<in> set (elements (Metadata.Modules (snd (''a'', requiring ''A'' [''L'']))))"
    by (simp add: elements_def requiring_def)
  have c: "moduleMap_of [modA, modL] (ToLower (Metadata.Name (snd (''a'', requiring ''A'' [''L'']))))
      = Some modA"
    by (simp add: graph_eval)
  have d: "moduleMap_of [modA, modL] (ToLower ''L'') = Some modL"
    by (simp add: graph_eval)
  have e: "Name modL \<noteq> []" by (simp add: modL_def)
  have n: "Name modL = ''L''" by (simp add: modL_def)
  have l: "\<forall>q\<in>set [0, 1]. q < nextmod listed_heap" by (simp add: listed_heap_def empty_heap_def)
  have m: "map (modobjs listed_heap) [0, 1] = [modA, modL]"
    by (simp add: listed_heap_def empty_heap_def)
  from BuildDependencyGraph_inserts_copy [OF run a b c d e]
  obtain r p where rp: "err = None" "Modules modA = Some r" "mapobjs h' r (Name modL) = Some p"
    "nextmod listed_heap \<le> p" "p < nextmod h'" "modobjs h' p = modL\<lparr>Modules := None\<rparr>"
    "\<forall>f locs. (\<forall>q\<in>set locs. q < nextmod listed_heap) \<longrightarrow>
        map (modobjs (assign_field p f h')) locs = map (modobjs listed_heap) locs"
    by blast
  from rp(7) l m
  have w: "map (modobjs (assign_field p (\<lambda>m. m\<lparr>Version := ''9.9''\<rparr>) h')) [0, 1] = [modA, modL]"
    by metis
  have run': "BuildDependencyGraph [modA, modL] [(''a'', requiring ''A'' [''L''])] listed_heap =
      Inr (None, h')"
    using run rp(1) by simp
  have k: "mapobjs h' r ''L'' = Some p" using rp(3) n by simp
  have "Modules modA = Some r \<and> mapobjs h' r ''L'' = Some p \<and>
        nextmod listed_heap \<le> p \<and> p < nextmod h' \<and> modobjs h' p = modL\<lparr>Modules := None\<rparr> \<and>
        map (modobjs (assign_field p (\<lambda>m. m\<lparr>Version := ''9.9''\<rparr>) h')) [0, 1] = [modA, modL]"
    using rp(2) k rp(4) rp(5) rp(6) w by (intro conjI)
  then have "\<exists>r p. Modules modA = Some r \<and> mapobjs h' r ''L'' = Some p \<and>
        nextmod listed_heap \<le> p \<and> p < nextmod h' \<and> modobjs h' p = modL\<lparr>Modules := None\<rparr> \<and>
        map (modobjs (assign_field p (\<lambda>m. m\<lparr>Version := ''9.9''\<rparr>) h')) [0, 1] = [modA, modL]"
    by (intro exI)
  with run' show ?thesis by (intro exI [of _ h'] conjI)
qed

text \<open>
  The claim C4 fails in the field \<open>Modules\<close>: after linking A to B and B to C the
  copy of B in A's map has the nil map, while B's own map (at address 1) holds C. It
  fails in the ownership too: the copy of \<open>modL\<close> has \<open>modL\<close>'s licence slice, and
  the store \<^verbatim>\<open>deps["L"].OtherLicense[0] = 9\<close> through the copy changes the licences
  that \<open>modL\<close> holds.
\<close>

theorem copy_is_not_equal_nor_independent:
  "deps_after (BuildDependencyGraph [modA, modB, modC]
      [(''a'', requiring ''A'' [''B'']), (''b'', requiring ''B'' [''C''])] three_maps) 0 ''B'' =
     Inr (Some (modB\<lparr>Modules := None\<rparr>)) \<and>
   Modules modB = Some 1 \<and>
   deps_after (BuildDependencyGraph [modA, modB, modC]
      [(''a'', requiring ''A'' [''B'']), (''b'', requiring ''B'' [''C''])] three_maps) 1 ''C'' =
     Inr (Some (modC\<lparr>Modules := None\<rparr>)) \<and>
   modB\<lparr>Modules := None\<rparr> \<noteq> modB \<and>
   licences_of licensed_heap modL = [7] \<and>
   licences_after
     (element_store_after
        (BuildDependencyGraph [modA, modL] [(''a'', requiring ''A'' [''L''])] licensed_heap)
        0 ''L'' 0 9)
     modL = Inr [9]"
  by (simp add: graph_eval licences_of_def licences_after_def element_store_after_def
      assign_element_def)

end
